theory Spec2Isabelle
  imports Main "HOL-Library.Word"
begin

unbundle bit_operations_syntax

section \<open>Data model of dma.c\<close>

type_synonym u8 = "8 word"
type_synonym u16 = "16 word"
type_synonym u32 = "32 word"

text \<open>
  Memory is a total map from addresses to bytes; a C pointer is an address, and pointer
  arithmetic is addition on \<open>int\<close>. A read outside a buffer returns whatever byte lies
  there, as the C code would fetch it.
\<close>

type_synonym addr = int
type_synonym memory = "addr \<Rightarrow> u8"

text \<open>
  The macros and the struct layout that dma.c takes from mt7601u.h, dma.h and mac.h, the
  inline predicate \<open>mt7601u_urb_has_error\<close> of usb.h and the kernel's \<open>ieee80211_hdrlen\<close>
  are defined outside dma.c. They are parameters of the model: every function below
  receives them in one record. The macros are C \<open>int\<close> constants used in unsigned
  32-bit arithmetic, so they are kept as 32-bit words. \<open>EP_OUT_MAX\<close> stands for
  \<open>__MT_EP_OUT_MAX\<close>, and \<open>rxwi_zero_offset\<close> for the offset of the member \<open>zero\<close> in
  \<open>struct mt7601u_rxwi\<close>.
\<close>

record dma_consts =
  MT_DMA_HDR_LEN :: u32
  MT_RX_INFO_LEN :: u32
  MT_FCE_INFO_LEN :: u32
  MT_DMA_HDRS :: u32
  sizeof_rxwi :: u32
  rxwi_zero_offset :: int
  MT_RXINFO_L2PAD :: u32
  MT_RXD_INFO_TYPE :: u32
  MT_TXD_PKT_INFO_80211 :: u32
  MT_TXD_PKT_INFO_WIV :: u32
  EP_OUT_MAX :: nat
  ieee80211_hdrlen :: "u16 \<Rightarrow> u32"
  mt7601u_urb_has_error :: "int \<Rightarrow> bool"

text \<open>\<open>struct mt7601u_rxwi\<close>: the two members dma.c reads.\<close>

record mt7601u_rxwi =
  rxinfo :: u32
  zero :: "u8 list"

text \<open>
  \<open>struct sk_buff\<close>: the bytes put into the frame, the size it was allocated with, the
  queue mapping, and the DMA-control words pushed in front of the frame on transmit.
\<close>

datatype mt76_qsel = MT_QSEL_MGMT | MT_QSEL_EDCA

record txd_word =
  txd_qsel :: mt76_qsel
  txd_flags :: u32

record sk_buff =
  skb_data :: "u8 list"
  skb_size :: nat
  queue_mapping :: u16
  skb_txd :: "txd_word list"

text \<open>Calls that leave dma.c towards the transport, the MAC layer, the stack and the log.\<close>

datatype event =
    Dev_err string
  | Warn string
  | Trace_mt_rx
  | Trace_mt_rx_dma_aggr nat
  | Trace_mt_tx_dma_done sk_buff
  | Mac_process_rx sk_buff
  | Dev_kfree_skb sk_buff
  | Ieee80211_rx_ni sk_buff
  | Usb_submit_buf nat
  | Tasklet_schedule
  | Tasklet_kill
  | Tx_status sk_buff
  | Ieee80211_wake_queue u16
  | Ieee80211_stop_queue u16
  | Queue_delayed_work
  | Usb_submit_urb nat sk_buff
  | Usb_poison_urb nat
  | Usb_free_urb nat
  | Usb_free_buf nat

section \<open>Receive reassembler\<close>

definition get_unaligned_le16 :: "memory \<Rightarrow> addr \<Rightarrow> u16" where
  "get_unaligned_le16 mem p = ucast (mem p) OR push_bit 8 (ucast (mem (p + 1)))"

definition get_unaligned_le32 :: "memory \<Rightarrow> addr \<Rightarrow> u32" where
  "get_unaligned_le32 mem p =
     ucast (mem p) OR push_bit 8 (ucast (mem (p + 1))) OR
     push_bit 16 (ucast (mem (p + 2))) OR push_bit 24 (ucast (mem (p + 3)))"

text \<open>The source bytes of a \<open>memcpy\<close> of \<open>n\<close> bytes from address \<open>p\<close>.\<close>

definition mem_bytes :: "memory \<Rightarrow> addr \<Rightarrow> nat \<Rightarrow> u8 list" where
  "mem_bytes mem p n = map (\<lambda>k. mem (p + int k)) [0..<n]"

definition read_rxwi :: "dma_consts \<Rightarrow> memory \<Rightarrow> addr \<Rightarrow> mt7601u_rxwi" where
  "read_rxwi c mem p =
     \<lparr>rxinfo = get_unaligned_le32 mem p,
      zero = mem_bytes mem (p + rxwi_zero_offset c) 3\<rparr>"

text \<open>
  \<open>ieee80211_get_hdrlen_from_buf\<close>. \<open>ieee80211_hdrlen\<close> receives the frame-control field
  as it is stored in the first two bytes of the frame.
\<close>

definition ieee80211_get_hdrlen_from_buf ::
  "dma_consts \<Rightarrow> memory \<Rightarrow> addr \<Rightarrow> u32 \<Rightarrow> u32" where
  "ieee80211_get_hdrlen_from_buf c mem data len =
     (if len < 10 then 0
      else if ieee80211_hdrlen c (get_unaligned_le16 mem data) > len then 0
      else ieee80211_hdrlen c (get_unaligned_le16 mem data))"

text \<open>
  \<open>mt7601u_rx_skb_from_seg\<close>. \<open>alloc_ok\<close> is the outcome of \<open>alloc_skb\<close>; \<open>None\<close> is the
  \<open>NULL\<close> return. \<open>hdr_len\<close> is a C \<open>int\<close>: the pointer moves by its signed value,
  \<open>skb_put\<close> takes it as an unsigned length.
\<close>

definition l2pad :: "dma_consts \<Rightarrow> mt7601u_rxwi \<Rightarrow> bool" where
  "l2pad c rxwi = (rxinfo rxwi AND MT_RXINFO_L2PAD c \<noteq> 0)"

definition mt7601u_rx_skb_from_seg ::
  "dma_consts \<Rightarrow> bool \<Rightarrow> mt7601u_rxwi \<Rightarrow> memory \<Rightarrow> addr \<Rightarrow> u32 \<Rightarrow> sk_buff option" where
  "mt7601u_rx_skb_from_seg c alloc_ok rxwi mem data seg_len =
     (let seg_len1 = (if l2pad c rxwi then seg_len - 2 else seg_len) in
      if \<not> alloc_ok then None
      else
        let hdr_len = ieee80211_get_hdrlen_from_buf c mem data seg_len1;
            put1 = (if l2pad c rxwi then mem_bytes mem data (unat hdr_len) else []);
            data2 = (if l2pad c rxwi then data + (sint hdr_len + 2) else data);
            seg_len2 = (if l2pad c rxwi then seg_len1 - hdr_len else seg_len1)
        in Some \<lparr>skb_data = put1 @ mem_bytes mem data2 (unat seg_len2),
                 skb_size = unat seg_len1,
                 queue_mapping = 0,
                 skb_txd = []\<rparr>)"

text \<open>
  \<open>mt7601u_rx_process_seg\<close>, as the list of calls it makes. \<open>fst env\<close> is the outcome
  of \<open>alloc_skb\<close>, \<open>snd env\<close> tells whether \<open>mt76_mac_process_rx\<close> rejects the frame.
\<close>

definition mt7601u_rx_process_seg ::
  "dma_consts \<Rightarrow> bool \<times> bool \<Rightarrow> memory \<Rightarrow> addr \<Rightarrow> u32 \<Rightarrow> event list" where
  "mt7601u_rx_process_seg c env mem data seg_len =
     (let fce_info = get_unaligned_le32 mem (data + uint seg_len - uint (MT_FCE_INFO_LEN c));
          seg_len1 = seg_len - MT_FCE_INFO_LEN c;
          data1 = data + uint (MT_DMA_HDR_LEN c);
          seg_len2 = seg_len1 - MT_DMA_HDR_LEN c;
          rxwi = read_rxwi c mem data1;
          data2 = data1 + uint (sizeof_rxwi c);
          seg_len3 = seg_len2 - sizeof_rxwi c
      in (if zero rxwi ! 0 \<noteq> 0 \<or> zero rxwi ! 1 \<noteq> 0 \<or> zero rxwi ! 2 \<noteq> 0
          then [Dev_err ''Error: RXWI zero fields are set''] else []) @
         (if fce_info AND MT_RXD_INFO_TYPE c \<noteq> 0
          then [Dev_err ''Error: RX path seen a non-pkt urb''] else []) @
         [Trace_mt_rx] @
         (case mt7601u_rx_skb_from_seg c (fst env) rxwi mem data2 seg_len3 of
            None \<Rightarrow> []
          | Some skb \<Rightarrow>
              if snd env then [Mac_process_rx skb, Dev_kfree_skb skb]
              else [Mac_process_rx skb, Ieee80211_rx_ni skb]))"

text \<open>
  \<open>mt7601u_rx_next_seg_len\<close>. The comparisons are unsigned 32-bit; the result is cut
  to the 16 bits of the return type. The function is kept pure: the \<open>WARN_ON\<close> around
  three of the tests only prints.
\<close>

definition min_seg_len :: "dma_consts \<Rightarrow> u32" where
  "min_seg_len c = MT_DMA_HDR_LEN c + MT_RX_INFO_LEN c + sizeof_rxwi c + MT_FCE_INFO_LEN c"

definition mt7601u_rx_next_seg_len :: "dma_consts \<Rightarrow> memory \<Rightarrow> addr \<Rightarrow> u32 \<Rightarrow> u16" where
  "mt7601u_rx_next_seg_len c mem data data_len =
     (let dma_len = get_unaligned_le16 mem data in
      if data_len < min_seg_len c \<or>
         dma_len = 0 \<or>
         ucast dma_len + MT_DMA_HDRS c > data_len \<or>
         dma_len AND 3 \<noteq> 0
      then 0
      else ucast (MT_DMA_HDRS c + ucast dma_len :: u32))"

text \<open>
  The \<open>while\<close> loop of \<open>mt7601u_rx_process_entry\<close>: the cursor \<open>data\<close>, the remaining
  length, the segment count and the calls made so far. \<open>env cnt\<close> gives the outcomes of
  the allocation and of the MAC layer for segment number \<open>cnt\<close>.
\<close>

partial_function (option) rx_segments ::
  "dma_consts \<Rightarrow> (nat \<Rightarrow> bool \<times> bool) \<Rightarrow> memory \<Rightarrow> addr \<Rightarrow> u32 \<Rightarrow> nat \<Rightarrow>
   event list \<Rightarrow> (nat \<times> event list) option" where
  "rx_segments c env mem data data_len cnt evs =
     (if mt7601u_rx_next_seg_len c mem data data_len = 0 then Some (cnt, evs)
      else rx_segments c env mem
             (data + uint (mt7601u_rx_next_seg_len c mem data data_len))
             (data_len - ucast (mt7601u_rx_next_seg_len c mem data data_len))
             (cnt + 1)
             (evs @ mt7601u_rx_process_seg c (env cnt) mem data
                      (ucast (mt7601u_rx_next_seg_len c mem data data_len))))"

section \<open>Queues and device state\<close>

text \<open>
  \<open>struct urb\<close>: its identity (the pointer) and the two members dma.c reads. A receive
  entry owns its urb and its buffer; the buffer's bytes start at address 0 of \<open>buf\<close>.
  The queue structs are declared in mt7601u.h, not in dma.c: their indices and counters
  are taken to be \<open>unsigned int\<close>, and \<open>hw_key_idx\<close>, which dma.c
  compares with 0xff, to be a \<open>u8\<close>. A transmit slot holds the frame pointer stored by the
  last submission.
\<close>

record urb =
  urb_id :: nat
  urb_status :: int
  actual_length :: u32

record mt7601u_dma_buf =
  rx_urb :: urb
  buf :: memory

record mt7601u_rx_queue =
  rx_e :: "mt7601u_dma_buf list"
  rx_start :: u32
  rx_end :: u32
  rx_entries :: u32
  rx_pending :: u32

record mt7601u_dma_buf_tx =
  tx_urb :: nat
  tx_skb :: sk_buff

record mt7601u_tx_queue =
  tx_e :: "mt7601u_dma_buf_tx list"
  tx_start :: u32
  tx_end :: u32
  tx_entries :: u32
  tx_used :: u32

record mt76_wcid =
  hw_key_idx :: u8

text \<open>
  \<open>struct mt7601u_dev\<close>: the four state bits, the queues, and what the transport holds:
  the receive urbs in flight (oldest first), the transmit urbs in flight with the endpoint
  of their queue, and the urbs that were poisoned. \<open>log\<close> collects the calls made,
  oldest first.
\<close>

record mt7601u_dev =
  initialized :: bool
  removed :: bool
  more_stats :: bool
  reading_stats :: bool
  rx_q :: mt7601u_rx_queue
  tx_q :: "mt7601u_tx_queue list"
  rx_inflight :: "nat list"
  tx_inflight :: "(nat \<times> nat) list"
  poisoned :: "nat list"
  log :: "event list"

definition emit :: "event list \<Rightarrow> mt7601u_dev \<Rightarrow> mt7601u_dev" where
  "emit evs dev = dev\<lparr>log := log dev @ evs\<rparr>"

definition ENOSPC :: int where "ENOSPC = 28"
definition ENODEV :: int where "ENODEV = 19"
definition ENOENT :: int where "ENOENT = 2"

subsection \<open>Receive queue\<close>

text \<open>
  \<open>mt7601u_rx_process_entry\<close>; the entry is given by its index in \<open>rx_q.e\<close>. \<open>None\<close>
  would be a loop that does not return.
\<close>

definition mt7601u_rx_process_entry ::
  "dma_consts \<Rightarrow> (nat \<Rightarrow> bool \<times> bool) \<Rightarrow> mt7601u_dev \<Rightarrow> nat \<Rightarrow> mt7601u_dev option" where
  "mt7601u_rx_process_entry c env dev i =
     (if \<not> initialized dev then Some dev
      else
        case rx_segments c env (buf (rx_e (rx_q dev) ! i)) 0
               (actual_length (rx_urb (rx_e (rx_q dev) ! i))) 0 [] of
          None \<Rightarrow> None
        | Some (cnt, evs) \<Rightarrow>
            Some (emit (evs @ (if cnt > 1 then [Trace_mt_rx_dma_aggr cnt] else [])) dev))"

text \<open>
  \<open>mt7601u_rx_get_pending_entry\<close>: the index of the popped entry, or \<open>None\<close> for
  \<open>NULL\<close>. The C code divides by \<open>entries\<close> and indexes \<open>e\<close>; the theorems below are
  about well-formed rings (\<open>rx_ring_ok\<close>, \<open>tx_ring_ok\<close>), where both are defined.
\<close>

definition mt7601u_rx_get_pending_entry :: "mt7601u_dev \<Rightarrow> nat option \<times> mt7601u_dev" where
  "mt7601u_rx_get_pending_entry dev =
     (let q = rx_q dev in
      if rx_pending q = 0 then (None, dev)
      else (Some (unat (rx_start q)),
            dev\<lparr>rx_q := q\<lparr>rx_pending := rx_pending q - 1,
                           rx_start := (rx_start q + 1) mod rx_entries q\<rparr>\<rparr>))"

definition mt7601u_complete_rx :: "dma_consts \<Rightarrow> urb \<Rightarrow> mt7601u_dev \<Rightarrow> mt7601u_dev" where
  "mt7601u_complete_rx c u dev =
     (let dev1 = (if mt7601u_urb_has_error c (urb_status u)
                  then emit [Dev_err ''Error: RX urb failed''] dev else dev);
          q = rx_q dev1
      in if urb_id (rx_urb (rx_e q ! unat (rx_end q))) \<noteq> urb_id u
         then emit [Warn ''RX urb mismatch''] dev1
         else emit [Tasklet_schedule]
                (dev1\<lparr>rx_q := q\<lparr>rx_end := (rx_end q + 1) mod rx_entries q,
                                 rx_pending := rx_pending q + 1\<rparr>\<rparr>))"

text \<open>
  Modelled from the spec: \<open>mt7601u_usb_submit_buf\<close> is defined in usb.c, not in
  dma.c. The spec's transport contract is \<open>submit(handle, direction,
  endpoint, completion_callback)\<close>: the buffer is given to the transport for an inbound
  transfer; a poisoned handle is refused. Every call in dma.c passes \<open>USB_DIR_IN\<close>,
  \<open>MT_EP_IN_PKT_RX\<close> and the handler \<open>mt7601u_complete_rx\<close>, so the recorded call
  names the entry only, and the transport runs that handler when the urb comes back.
\<close>

definition mt7601u_usb_submit_buf :: "mt7601u_dev \<Rightarrow> nat \<Rightarrow> mt7601u_dev" where
  "mt7601u_usb_submit_buf dev i =
     (let u = urb_id (rx_urb (rx_e (rx_q dev) ! i)) in
      emit [Usb_submit_buf i]
        (if u \<in> set (poisoned dev) then dev
         else dev\<lparr>rx_inflight := rx_inflight dev @ [u]\<rparr>))"

text \<open>
  \<open>mt7601u_rx_tasklet\<close>. \<open>env i\<close> gives the outcomes of the allocations and of the MAC
  layer while entry \<open>i\<close> is reassembled.
\<close>

partial_function (option) mt7601u_rx_tasklet ::
  "dma_consts \<Rightarrow> (nat \<Rightarrow> nat \<Rightarrow> bool \<times> bool) \<Rightarrow> mt7601u_dev \<Rightarrow> mt7601u_dev option" where
  "mt7601u_rx_tasklet c env dev =
     (case fst (mt7601u_rx_get_pending_entry dev) of
        None \<Rightarrow> Some (snd (mt7601u_rx_get_pending_entry dev))
      | Some i \<Rightarrow>
          if urb_status (rx_urb (rx_e (rx_q dev) ! i)) \<noteq> 0
          then mt7601u_rx_tasklet c env (snd (mt7601u_rx_get_pending_entry dev))
          else
            (case mt7601u_rx_process_entry c (env i) (snd (mt7601u_rx_get_pending_entry dev)) i of
               None \<Rightarrow> None
             | Some dev2 \<Rightarrow> mt7601u_rx_tasklet c env (mt7601u_usb_submit_buf dev2 i)))"

subsection \<open>Transmit queues\<close>

text \<open>
  \<open>mt7601u_complete_tx\<close>; \<open>ep\<close> is the index of the queue that \<open>urb->context\<close> points
  to.
\<close>

definition mt7601u_complete_tx ::
  "dma_consts \<Rightarrow> nat \<Rightarrow> urb \<Rightarrow> mt7601u_dev \<Rightarrow> mt7601u_dev" where
  "mt7601u_complete_tx c ep u dev =
     (let dev1 = (if mt7601u_urb_has_error c (urb_status u)
                  then emit [Dev_err ''Error: TX urb failed''] dev else dev);
          q = tx_q dev1 ! ep
      in if tx_urb (tx_e q ! unat (tx_start q)) \<noteq> urb_id u
         then emit [Warn ''TX urb mismatch''] dev1
         else
           let skb = tx_skb (tx_e q ! unat (tx_start q));
               dev2 = emit ([Trace_mt_tx_dma_done skb, Tx_status skb] @
                            (if tx_used q = tx_entries q - tx_entries q div 8
                             then [Ieee80211_wake_queue (queue_mapping skb)] else [])) dev1;
               dev3 = dev2\<lparr>tx_q := (tx_q dev2)
                        [ep := q\<lparr>tx_start := (tx_start q + 1) mod tx_entries q,
                                  tx_used := tx_used q - 1\<rparr>]\<rparr>
           in if urb_status u \<noteq> 0 then dev3
              else if reading_stats dev3 then dev3\<lparr>more_stats := True\<rparr>
              else emit [Queue_delayed_work] (dev3\<lparr>more_stats := True, reading_stats := True\<rparr>))"

text \<open>
  \<open>mt7601u_dma_submit_tx\<close>. \<open>sub\<close> is what \<open>usb_submit_urb\<close> returns: 0, or a negative
  errno. The result is the return value and the device.
\<close>

definition mt7601u_dma_submit_tx ::
  "int \<Rightarrow> mt7601u_dev \<Rightarrow> sk_buff \<Rightarrow> u8 \<Rightarrow> int \<times> mt7601u_dev" where
  "mt7601u_dma_submit_tx sub dev skb ep =
     (let q = tx_q dev ! unat ep in
      if tx_entries q \<le> tx_used q then (- ENOSPC, emit [Warn ''q->entries <= q->used''] dev)
      else
        let u = tx_urb (tx_e q ! unat (tx_end q));
            q1 = q\<lparr>tx_e := (tx_e q)[unat (tx_end q) := (tx_e q ! unat (tx_end q))\<lparr>tx_skb := skb\<rparr>]\<rparr>;
            dev1 = emit [Usb_submit_urb u skb] (dev\<lparr>tx_q := (tx_q dev)[unat ep := q1]\<rparr>)
        in if sub \<noteq> 0
           then (sub, if sub = - ENODEV then dev1\<lparr>removed := True\<rparr>
                      else emit [Dev_err ''Error: TX urb submit failed''] dev1)
           else
             let q2 = q1\<lparr>tx_end := (tx_end q1 + 1) mod tx_entries q1, tx_used := tx_used q1 + 1\<rparr>;
                 dev2 = dev1\<lparr>tx_q := (tx_q dev1)[unat ep := q2],
                             tx_inflight := tx_inflight dev1 @ [(u, unat ep)]\<rparr>
             in (0, if tx_used q2 \<ge> tx_entries q2
                    then emit [Ieee80211_stop_queue (queue_mapping skb)] dev2 else dev2))"

definition q2ep :: "u8 \<Rightarrow> u8" where
  "q2ep qid = qid + 1"

definition ep2dmaq :: "u8 \<Rightarrow> mt76_qsel" where
  "ep2dmaq ep = (if ep = 5 then MT_QSEL_MGMT else MT_QSEL_EDCA)"

text \<open>
  Modelled from the spec: \<open>mt7601u_dma_skb_wrap_pkt\<close> is an inline function of dma.h,
  not of dma.c. The spec says that the frame is wrapped
  with the DMA-control word, which carries the descriptor-selector tag and the flags; the
  word is pushed in front of the frame.
\<close>

definition mt7601u_dma_skb_wrap_pkt :: "sk_buff \<Rightarrow> mt76_qsel \<Rightarrow> u32 \<Rightarrow> sk_buff" where
  "mt7601u_dma_skb_wrap_pkt skb qsel flags =
     skb\<lparr>skb_txd := \<lparr>txd_qsel = qsel, txd_flags = flags\<rparr> # skb_txd skb\<rparr>"

text \<open>
  \<open>mt7601u_dma_enqueue_tx\<close>. \<open>hw_q\<close> is a C \<open>int\<close>, converted to the \<open>u8\<close> argument
  of \<open>q2ep\<close>. The result is the return value, the caller's frame as the call leaves it,
  and the device.
\<close>

definition dma_flags :: "dma_consts \<Rightarrow> mt76_wcid \<Rightarrow> u32" where
  "dma_flags c wcid =
     (if hw_key_idx wcid = 0xff
      then MT_TXD_PKT_INFO_80211 c OR MT_TXD_PKT_INFO_WIV c
      else MT_TXD_PKT_INFO_80211 c)"

definition mt7601u_dma_enqueue_tx ::
  "dma_consts \<Rightarrow> int \<Rightarrow> mt7601u_dev \<Rightarrow> sk_buff \<Rightarrow> mt76_wcid \<Rightarrow> int \<Rightarrow>
   int \<times> sk_buff \<times> mt7601u_dev" where
  "mt7601u_dma_enqueue_tx c sub dev skb wcid hw_q =
     (let ep = q2ep (word_of_int hw_q);
          skb1 = mt7601u_dma_skb_wrap_pkt skb (ep2dmaq ep) (dma_flags c wcid);
          r = mt7601u_dma_submit_tx sub dev skb1 ep
      in (fst r, skb1, snd r))"

subsection \<open>The transport\<close>

text \<open>
  The transport gives a urb back by writing its status and length and running the
  completion handler it was submitted with: \<open>mt7601u_complete_rx\<close> for a receive urb,
  \<open>mt7601u_complete_tx\<close> with its queue for a transmit urb.
\<close>

definition write_rx_urb :: "urb \<Rightarrow> mt7601u_dev \<Rightarrow> mt7601u_dev" where
  "write_rx_urb u dev =
     dev\<lparr>rx_q := (rx_q dev)\<lparr>rx_e :=
       map (\<lambda>b. if urb_id (rx_urb b) = urb_id u then b\<lparr>rx_urb := u\<rparr> else b) (rx_e (rx_q dev))\<rparr>\<rparr>"

definition usb_complete_rx ::
  "dma_consts \<Rightarrow> nat \<Rightarrow> int \<Rightarrow> u32 \<Rightarrow> mt7601u_dev \<Rightarrow> mt7601u_dev" where
  "usb_complete_rx c u st len dev =
     mt7601u_complete_rx c \<lparr>urb_id = u, urb_status = st, actual_length = len\<rparr>
       (write_rx_urb \<lparr>urb_id = u, urb_status = st, actual_length = len\<rparr>
          (dev\<lparr>rx_inflight := remove1 u (rx_inflight dev)\<rparr>))"

definition usb_complete_tx ::
  "dma_consts \<Rightarrow> nat \<Rightarrow> nat \<Rightarrow> int \<Rightarrow> mt7601u_dev \<Rightarrow> mt7601u_dev" where
  "usb_complete_tx c u ep st dev =
     mt7601u_complete_tx c ep \<lparr>urb_id = u, urb_status = st, actual_length = 0\<rparr>
       (dev\<lparr>tx_inflight := remove1 (u, ep) (tx_inflight dev)\<rparr>)"

text \<open>
  Modelled from the spec: \<open>usb_poison_urb\<close> belongs to the USB core, not to dma.c.
  The spec's transport contract is \<open>invalidate(handle)\<close>: the handle is
  poisoned, so that a later submission of it is refused, and a transfer of it that is in
  flight is cancelled, which gives the urb back with status \<open>-ENOENT\<close>.
\<close>

definition usb_poison_urb :: "dma_consts \<Rightarrow> nat \<Rightarrow> mt7601u_dev \<Rightarrow> mt7601u_dev" where
  "usb_poison_urb c u dev =
     (let dev1 = emit [Usb_poison_urb u] (dev\<lparr>poisoned := u # poisoned dev\<rparr>) in
      if u \<in> set (rx_inflight dev1) then usb_complete_rx c u (- ENOENT) 0 dev1
      else case map_of (tx_inflight dev1) u of
             Some ep \<Rightarrow> usb_complete_tx c u ep (- ENOENT) dev1
           | None \<Rightarrow> dev1)"

subsection \<open>Teardown\<close>

text \<open>
  \<open>mt7601u_kill_rx\<close>: one pass of the loop body, repeated \<open>rx_q.entries\<close> times. The
  bound is not written by anything the loop calls.
\<close>

definition kill_rx_body :: "dma_consts \<Rightarrow> mt7601u_dev \<Rightarrow> mt7601u_dev" where
  "kill_rx_body c dev =
     usb_poison_urb c (urb_id (rx_urb (rx_e (rx_q dev) ! unat (rx_end (rx_q dev))))) dev"

definition mt7601u_kill_rx :: "dma_consts \<Rightarrow> mt7601u_dev \<Rightarrow> mt7601u_dev" where
  "mt7601u_kill_rx c dev = (kill_rx_body c ^^ unat (rx_entries (rx_q dev))) dev"

text \<open>
  \<open>mt7601u_free_rx\<close>; \<open>mt7601u_usb_free_buf\<close> (usb.c) is recorded as a call.
\<close>

definition mt7601u_free_rx :: "mt7601u_dev \<Rightarrow> mt7601u_dev" where
  "mt7601u_free_rx dev = emit (map Usb_free_buf [0..<unat (rx_entries (rx_q dev))]) dev"

definition free_tx_queue_body :: "dma_consts \<Rightarrow> nat \<Rightarrow> mt7601u_dev \<Rightarrow> nat \<Rightarrow> mt7601u_dev" where
  "free_tx_queue_body c ep dev i =
     emit [Usb_free_urb (tx_urb (tx_e (tx_q dev ! ep) ! i))]
       (usb_poison_urb c (tx_urb (tx_e (tx_q dev ! ep) ! i)) dev)"

definition mt7601u_free_tx_queue :: "dma_consts \<Rightarrow> mt7601u_dev \<Rightarrow> nat \<Rightarrow> mt7601u_dev" where
  "mt7601u_free_tx_queue c dev ep =
     foldl (free_tx_queue_body c ep)
       (if tx_used (tx_q dev ! ep) \<noteq> 0 then emit [Warn ''q->used''] dev else dev)
       [0..<unat (tx_entries (tx_q dev ! ep))]"

definition mt7601u_free_tx :: "dma_consts \<Rightarrow> mt7601u_dev \<Rightarrow> mt7601u_dev" where
  "mt7601u_free_tx c dev = foldl (mt7601u_free_tx_queue c) dev [0..<EP_OUT_MAX c]"

definition mt7601u_dma_cleanup :: "dma_consts \<Rightarrow> mt7601u_dev \<Rightarrow> mt7601u_dev" where
  "mt7601u_dma_cleanup c dev =
     mt7601u_free_tx c (mt7601u_free_rx (emit [Tasklet_kill] (mt7601u_kill_rx c dev)))"

subsection \<open>Interleavings on the receive ring\<close>

text \<open>
  The receive ring is driven from two sides. The transport completes the oldest receive
  urb in flight (with some status and length); the processor pops an entry and holds it in
  its local variable \<open>e\<close> until it resubmits it, or pops the next one without
  resubmitting.
\<close>

datatype rx_action = Complete int u32 | Pop | Resubmit

record rx_sys =
  sys_dev :: mt7601u_dev
  held :: "nat option"

definition rx_step :: "dma_consts \<Rightarrow> rx_sys \<Rightarrow> rx_action \<Rightarrow> rx_sys" where
  "rx_step c s a =
     (case a of
        Complete st len \<Rightarrow>
          (case rx_inflight (sys_dev s) of
             [] \<Rightarrow> s
           | u # _ \<Rightarrow> s\<lparr>sys_dev := usb_complete_rx c u st len (sys_dev s)\<rparr>)
      | Pop \<Rightarrow>
          s\<lparr>sys_dev := snd (mt7601u_rx_get_pending_entry (sys_dev s)),
            held := fst (mt7601u_rx_get_pending_entry (sys_dev s))\<rparr>
      | Resubmit \<Rightarrow>
          (case held s of
             None \<Rightarrow> s
           | Some i \<Rightarrow> s\<lparr>sys_dev := mt7601u_usb_submit_buf (sys_dev s) i, held := None\<rparr>))"

definition rx_run :: "dma_consts \<Rightarrow> rx_sys \<Rightarrow> rx_action list \<Rightarrow> rx_sys" where
  "rx_run c s acts = foldl (rx_step c) s acts"

text \<open>
  The state after \<open>mt7601u_alloc_rx\<close> and \<open>mt7601u_submit_rx\<close> on a ring of \<open>n\<close>
  entries: indices and counter zero, every buffer submitted in index order.
\<close>

definition rx_ring :: "nat \<Rightarrow> mt7601u_rx_queue" where
  "rx_ring n =
     \<lparr>rx_e = map (\<lambda>i. \<lparr>rx_urb = \<lparr>urb_id = i, urb_status = 0, actual_length = 0\<rparr>,
                        buf = (\<lambda>a. 0)\<rparr>) [0..<n],
      rx_start = 0, rx_end = 0, rx_entries = of_nat n, rx_pending = 0\<rparr>"

definition rx_init :: "nat \<Rightarrow> rx_sys" where
  "rx_init n =
     \<lparr>sys_dev = \<lparr>initialized = True, removed = False, more_stats = False,
                 reading_stats = False, rx_q = rx_ring n, tx_q = [],
                 rx_inflight = [0..<n], tx_inflight = [], poisoned = [], log = []\<rparr>,
      held = None\<rparr>"

section \<open>Reading the log\<close>

text \<open>The queue-wake signals and the transmit submissions among a list of calls.\<close>

fun wake_calls :: "event list \<Rightarrow> u16 list" where
  "wake_calls [] = []"
| "wake_calls (Ieee80211_wake_queue q # es) = q # wake_calls es"
| "wake_calls (e # es) = wake_calls es"

fun submit_urb_calls :: "event list \<Rightarrow> (nat \<times> sk_buff) list" where
  "submit_urb_calls [] = []"
| "submit_urb_calls (Usb_submit_urb u skb # es) = (u, skb) # submit_urb_calls es"
| "submit_urb_calls (e # es) = submit_urb_calls es"

fun submit_buf_calls :: "event list \<Rightarrow> nat list" where
  "submit_buf_calls [] = []"
| "submit_buf_calls (Usb_submit_buf i # es) = i # submit_buf_calls es"
| "submit_buf_calls (e # es) = submit_buf_calls es"

fun poison_calls :: "event list \<Rightarrow> nat list" where
  "poison_calls [] = []"
| "poison_calls (Usb_poison_urb u # es) = u # poison_calls es"
| "poison_calls (e # es) = poison_calls es"

fun free_buf_calls :: "event list \<Rightarrow> nat list" where
  "free_buf_calls [] = []"
| "free_buf_calls (Usb_free_buf i # es) = i # free_buf_calls es"
| "free_buf_calls (e # es) = free_buf_calls es"

section \<open>Ring bookkeeping\<close>

text \<open>
  A ring as the driver keeps it: \<open>entries\<close> is the number of slots in \<open>e\<close> and the
  two indices are inside it. Outside such a ring the C code would index past the array or
  divide by zero.
\<close>

definition rx_ring_ok :: "mt7601u_rx_queue \<Rightarrow> bool" where
  "rx_ring_ok q =
     (unat (rx_entries q) = length (rx_e q) \<and> rx_start q < rx_entries q \<and>
      rx_end q < rx_entries q)"

definition tx_ring_ok :: "mt7601u_tx_queue \<Rightarrow> bool" where
  "tx_ring_ok q =
     (unat (tx_entries q) = length (tx_e q) \<and> tx_start q < tx_entries q \<and>
      tx_end q < tx_entries q)"

text \<open>
  The ring positions of \<open>k\<close> pending entries, oldest first, as successive pops visit
  them.
\<close>

fun pending_indices :: "nat \<Rightarrow> u32 \<Rightarrow> u32 \<Rightarrow> nat list" where
  "pending_indices 0 start entries = []"
| "pending_indices (Suc k) start entries =
     unat start # pending_indices k ((start + 1) mod entries) entries"

text \<open>
  What a receive buffer can be: completed and waiting in the ring, in flight, or held by
  the processor. \<open>rx_count\<close> counts the buffers in these three places.
\<close>

definition rx_count :: "rx_sys \<Rightarrow> nat" where
  "rx_count s =
     unat (rx_pending (rx_q (sys_dev s))) + length (rx_inflight (sys_dev s)) +
     (case held s of None \<Rightarrow> 0 | Some i \<Rightarrow> 1)"

fun is_complete :: "rx_action \<Rightarrow> bool" where
  "is_complete (Complete st len) = True"
| "is_complete a = False"

text \<open>
  The ring after \<open>k\<close> completions and no pop: the urbs \<open>k..n-1\<close> still in flight in
  submission order, \<open>end\<close> at \<open>k mod n\<close>, \<open>k\<close> entries pending.
\<close>

definition filled :: "nat \<Rightarrow> nat \<Rightarrow> rx_sys \<Rightarrow> bool" where
  "filled n k s =
     (rx_inflight (sys_dev s) = [k..<n] \<and>
      map (\<lambda>b. urb_id (rx_urb b)) (rx_e (rx_q (sys_dev s))) = [0..<n] \<and>
      unat (rx_entries (rx_q (sys_dev s))) = n \<and>
      unat (rx_end (rx_q (sys_dev s))) = k mod n \<and>
      unat (rx_pending (rx_q (sys_dev s))) = k)"

section \<open>Concrete instances\<close>

text \<open>
  One choice of the parameters, and small device states, for the concrete runs below: a
  frame, transmit queues of 64 slots with a given number in use, and a device with six of
  them.
\<close>

definition sample_consts :: dma_consts where
  "sample_consts =
     \<lparr>MT_DMA_HDR_LEN = 4, MT_RX_INFO_LEN = 4, MT_FCE_INFO_LEN = 4, MT_DMA_HDRS = 8,
      sizeof_rxwi = 28, rxwi_zero_offset = 13, MT_RXINFO_L2PAD = 0x4000,
      MT_RXD_INFO_TYPE = 0xC0000000, MT_TXD_PKT_INFO_80211 = 0x80000,
      MT_TXD_PKT_INFO_WIV = 0x1000000, EP_OUT_MAX = 6,
      ieee80211_hdrlen = (\<lambda>fc. 24),
      mt7601u_urb_has_error = (\<lambda>st. st \<noteq> 0 \<and> st \<noteq> - 2 \<and> st \<noteq> - 104 \<and> st \<noteq> - 108)\<rparr>"

definition sample_skb :: sk_buff where
  "sample_skb = \<lparr>skb_data = [1, 2, 3, 4], skb_size = 4, queue_mapping = 2, skb_txd = []\<rparr>"

definition sample_tx_queue :: "nat \<Rightarrow> u32 \<Rightarrow> mt7601u_tx_queue" where
  "sample_tx_queue ep used =
     \<lparr>tx_e = map (\<lambda>i. \<lparr>tx_urb = 100 * (ep + 1) + i, tx_skb = sample_skb\<rparr>) [0..<64],
      tx_start = 0, tx_end = used mod 64, tx_entries = 64, tx_used = used\<rparr>"

definition sample_tx_dev :: "u32 \<Rightarrow> mt7601u_dev" where
  "sample_tx_dev used =
     \<lparr>initialized = True, removed = False, more_stats = False, reading_stats = False,
      rx_q = rx_ring 2, tx_q = map (\<lambda>ep. sample_tx_queue ep used) [0..<6],
      rx_inflight = [], tx_inflight = [], poisoned = [], log = []\<rparr>"

text \<open>
  A memory that holds the given bytes from address 0 on and zero elsewhere; a receive
  buffer with one segment of eight payload bytes; and a padded payload: 24 header bytes,
  2 pad bytes, 4 more bytes.
\<close>

definition mem_of :: "u8 list \<Rightarrow> memory" where
  "mem_of bs = (\<lambda>a. if 0 \<le> a \<and> nat a < length bs then bs ! nat a else 0)"

definition sample_rx_bytes :: "u8 list" where
  "sample_rx_bytes = [36, 0, 0, 0] @ replicate 28 0 @ [1, 2, 3, 4, 5, 6, 7, 8] @ [0, 0, 0, 0]"

definition sample_padded :: "u8 list" where
  "sample_padded = replicate 24 7 @ [0xAA, 0xBB] @ [1, 2, 3, 4]"

text \<open>
  A ring of two buffers whose first transfer failed with \<open>-EPROTO\<close>; transmit queues of
  two slots with nothing in flight; and the device a run of the receive ring leaves, with
  six such transmit queues.
\<close>

definition failed_dev :: mt7601u_dev where
  "failed_dev = usb_complete_rx sample_consts 0 (- 71) 0 (sys_dev (rx_init 2))"

definition idle_tx_queue :: "nat \<Rightarrow> mt7601u_tx_queue" where
  "idle_tx_queue ep =
     \<lparr>tx_e = [\<lparr>tx_urb = 100 * (ep + 1), tx_skb = sample_skb\<rparr>,
             \<lparr>tx_urb = 100 * (ep + 1) + 1, tx_skb = sample_skb\<rparr>],
      tx_start = 0, tx_end = 0, tx_entries = 2, tx_used = 0\<rparr>"

definition teardown_dev :: "rx_action list \<Rightarrow> mt7601u_dev" where
  "teardown_dev acts =
     (sys_dev (rx_run sample_consts (rx_init 2) acts))\<lparr>tx_q := map idle_tx_queue [0..<6]\<rparr>"

section \<open>Properties\<close>

subsection \<open>Transmit path\<close>

lemma wake_calls_append: "wake_calls (xs @ ys) = wake_calls xs @ wake_calls ys"
  by (induction xs rule: wake_calls.induct) simp_all

lemma submit_urb_calls_append:
  "submit_urb_calls (xs @ ys) = submit_urb_calls xs @ submit_urb_calls ys"
  by (induction xs rule: submit_urb_calls.induct) simp_all

lemma submit_tx_full:
  assumes "tx_entries (tx_q dev ! unat ep) \<le> tx_used (tx_q dev ! unat ep)"
  shows "mt7601u_dma_submit_tx sub dev skb ep =
           (- ENOSPC, emit [Warn ''q->entries <= q->used''] dev)"
  using assms by (simp add: mt7601u_dma_submit_tx_def Let_def)

lemma submit_tx_failed:
  assumes "unat ep < length (tx_q dev)"
      and "\<not> tx_entries (tx_q dev ! unat ep) \<le> tx_used (tx_q dev ! unat ep)"
      and "sub \<noteq> 0"
  shows "fst (mt7601u_dma_submit_tx sub dev skb ep) = sub \<and>
         tx_used (tx_q (snd (mt7601u_dma_submit_tx sub dev skb ep)) ! unat ep) =
           tx_used (tx_q dev ! unat ep) \<and>
         tx_end (tx_q (snd (mt7601u_dma_submit_tx sub dev skb ep)) ! unat ep) =
           tx_end (tx_q dev ! unat ep) \<and>
         tx_inflight (snd (mt7601u_dma_submit_tx sub dev skb ep)) = tx_inflight dev"
  using assms by (simp add: mt7601u_dma_submit_tx_def Let_def emit_def)

lemma submit_tx_ok:
  assumes "unat ep < length (tx_q dev)"
      and "\<not> tx_entries (tx_q dev ! unat ep) \<le> tx_used (tx_q dev ! unat ep)"
  shows "fst (mt7601u_dma_submit_tx 0 dev skb ep) = 0 \<and>
         tx_used (tx_q (snd (mt7601u_dma_submit_tx 0 dev skb ep)) ! unat ep) =
           tx_used (tx_q dev ! unat ep) + 1 \<and>
         tx_end (tx_q (snd (mt7601u_dma_submit_tx 0 dev skb ep)) ! unat ep) =
           (tx_end (tx_q dev ! unat ep) + 1) mod tx_entries (tx_q dev ! unat ep) \<and>
         tx_inflight (snd (mt7601u_dma_submit_tx 0 dev skb ep)) =
           tx_inflight dev @ [(tx_urb (tx_e (tx_q dev ! unat ep) ! unat (tx_end (tx_q dev ! unat ep))), unat ep)]"
  using assms by (simp add: mt7601u_dma_submit_tx_def Let_def emit_def)

lemma ENOSPC_nonzero: "- ENOSPC \<noteq> 0"
  by (simp add: ENOSPC_def)

lemma submit_tx_error_keeps:
  assumes "unat ep < length (tx_q dev)"
      and "fst (mt7601u_dma_submit_tx sub dev skb ep) \<noteq> 0"
  shows "tx_used (tx_q (snd (mt7601u_dma_submit_tx sub dev skb ep)) ! unat ep) =
           tx_used (tx_q dev ! unat ep) \<and>
         tx_end (tx_q (snd (mt7601u_dma_submit_tx sub dev skb ep)) ! unat ep) =
           tx_end (tx_q dev ! unat ep) \<and>
         tx_inflight (snd (mt7601u_dma_submit_tx sub dev skb ep)) = tx_inflight dev"
proof (cases "tx_entries (tx_q dev ! unat ep) \<le> tx_used (tx_q dev ! unat ep)")
  case True
  then show ?thesis by (simp add: submit_tx_full emit_def)
next
  case False
  show ?thesis
  proof (cases "sub = 0")
    case True
    with assms submit_tx_ok [OF assms(1) False, of skb] show ?thesis by simp
  next
    case sub: False
    from submit_tx_failed [OF assms(1) False sub] show ?thesis by simp
  qed
qed

lemma submit_tx_success:
  assumes "unat ep < length (tx_q dev)"
      and "fst (mt7601u_dma_submit_tx sub dev skb ep) = 0"
  shows "sub = 0 \<and>
         tx_used (tx_q (snd (mt7601u_dma_submit_tx sub dev skb ep)) ! unat ep) =
           tx_used (tx_q dev ! unat ep) + 1 \<and>
         tx_end (tx_q (snd (mt7601u_dma_submit_tx sub dev skb ep)) ! unat ep) =
           (tx_end (tx_q dev ! unat ep) + 1) mod tx_entries (tx_q dev ! unat ep)"
proof (cases "tx_entries (tx_q dev ! unat ep) \<le> tx_used (tx_q dev ! unat ep)")
  case True
  with assms(2) show ?thesis by (simp add: submit_tx_full ENOSPC_def)
next
  case False
  show ?thesis
  proof (cases "sub = 0")
    case True
    with submit_tx_ok [OF assms(1) False, of skb] show ?thesis by simp
  next
    case sub: False
    from submit_tx_failed [OF assms(1) False sub, of skb] assms(2) sub show ?thesis by simp
  qed
qed

text \<open>
  Claim C2, as the code has it. A transmit completion that arrives for the slot at
  \<open>start\<close> calls \<open>ieee80211_wake_queue\<close> exactly once, for the frame's queue mapping, when
  it finds \<open>used = entries - entries / 8\<close> on entry, and not at all when it finds any other
  value; it then advances \<open>start\<close> and decrements \<open>used\<close>, so the waking completion leaves
  \<open>used\<close> one below the mark.
\<close>

theorem complete_tx_wake:
  assumes "ep < length (tx_q dev)"
      and "tx_ring_ok (tx_q dev ! ep)"
      and "tx_urb (tx_e (tx_q dev ! ep) ! unat (tx_start (tx_q dev ! ep))) = urb_id u"
  shows "wake_calls (drop (length (log dev)) (log (mt7601u_complete_tx c ep u dev))) =
           (if tx_used (tx_q dev ! ep) = tx_entries (tx_q dev ! ep) - tx_entries (tx_q dev ! ep) div 8
            then [queue_mapping (tx_skb (tx_e (tx_q dev ! ep) ! unat (tx_start (tx_q dev ! ep))))]
            else []) \<and>
         tx_used (tx_q (mt7601u_complete_tx c ep u dev) ! ep) = tx_used (tx_q dev ! ep) - 1 \<and>
         tx_start (tx_q (mt7601u_complete_tx c ep u dev) ! ep) =
           (tx_start (tx_q dev ! ep) + 1) mod tx_entries (tx_q dev ! ep)"
  using assms by (simp add: mt7601u_complete_tx_def Let_def emit_def wake_calls_append)

theorem complete_tx_wake_witness:
  "(1::nat) < length (tx_q (sample_tx_dev 56)) \<and>
   tx_ring_ok (tx_q (sample_tx_dev 56) ! 1) \<and>
   tx_urb (tx_e (tx_q (sample_tx_dev 56) ! 1) ! unat (tx_start (tx_q (sample_tx_dev 56) ! 1))) = 200 \<and>
   wake_calls (log (mt7601u_complete_tx sample_consts 1
      \<lparr>urb_id = 200, urb_status = 0, actual_length = 0\<rparr> (sample_tx_dev 56))) = [2] \<and>
   tx_used (tx_q (mt7601u_complete_tx sample_consts 1
      \<lparr>urb_id = 200, urb_status = 0, actual_length = 0\<rparr> (sample_tx_dev 56)) ! 1) = 55"
  using complete_tx_wake [of 1 "sample_tx_dev 56"
      "\<lparr>urb_id = 200, urb_status = 0, actual_length = 0\<rparr>" sample_consts]
  by (simp add: sample_tx_dev_def sample_tx_queue_def sample_skb_def tx_ring_ok_def)

text \<open>
  The completion that brings \<open>used\<close> from 57 down to the mark \<open>64 - 64 / 8 = 56\<close> issues
  no wake.
\<close>

theorem complete_tx_wake_counterexample:
  "tx_used (tx_q (sample_tx_dev 57) ! 1) = 57 \<and>
   tx_used (tx_q (mt7601u_complete_tx sample_consts 1
      \<lparr>urb_id = 200, urb_status = 0, actual_length = 0\<rparr> (sample_tx_dev 57)) ! 1) =
     tx_entries (tx_q (sample_tx_dev 57) ! 1) - tx_entries (tx_q (sample_tx_dev 57) ! 1) div 8 \<and>
   wake_calls (log (mt7601u_complete_tx sample_consts 1
      \<lparr>urb_id = 200, urb_status = 0, actual_length = 0\<rparr> (sample_tx_dev 57))) = []"
  by (simp add: mt7601u_complete_tx_def Let_def emit_def sample_tx_dev_def sample_tx_queue_def sample_skb_def sample_consts_def)

text \<open>
  Claim C5. When the target queue has \<open>used = entries\<close>, transmit enqueue returns
  \<open>-ENOSPC\<close>, submits nothing and leaves the transmit queues as they were. Whenever the
  call fails, \<open>used\<close> and \<open>end\<close> of the target queue are unchanged; when it succeeds, the
  submission succeeded, \<open>used\<close> has grown by one and \<open>end\<close> has advanced by one modulo
  \<open>entries\<close>.
\<close>

theorem enqueue_tx_no_space:
  assumes ep: "unat (q2ep (word_of_int hw_q)) < length (tx_q dev)"
      and "tx_ring_ok (tx_q dev ! unat (q2ep (word_of_int hw_q)))"
  shows
    "(tx_used (tx_q dev ! unat (q2ep (word_of_int hw_q))) =
        tx_entries (tx_q dev ! unat (q2ep (word_of_int hw_q))) \<longrightarrow>
      fst (mt7601u_dma_enqueue_tx c sub dev skb wcid hw_q) = - ENOSPC \<and>
      submit_urb_calls (drop (length (log dev))
        (log (snd (snd (mt7601u_dma_enqueue_tx c sub dev skb wcid hw_q))))) = [] \<and>
      tx_inflight (snd (snd (mt7601u_dma_enqueue_tx c sub dev skb wcid hw_q))) = tx_inflight dev \<and>
      tx_q (snd (snd (mt7601u_dma_enqueue_tx c sub dev skb wcid hw_q))) = tx_q dev) \<and>
     (fst (mt7601u_dma_enqueue_tx c sub dev skb wcid hw_q) \<noteq> 0 \<longrightarrow>
      tx_used (tx_q (snd (snd (mt7601u_dma_enqueue_tx c sub dev skb wcid hw_q))) !
                 unat (q2ep (word_of_int hw_q))) =
        tx_used (tx_q dev ! unat (q2ep (word_of_int hw_q))) \<and>
      tx_end (tx_q (snd (snd (mt7601u_dma_enqueue_tx c sub dev skb wcid hw_q))) !
                 unat (q2ep (word_of_int hw_q))) =
        tx_end (tx_q dev ! unat (q2ep (word_of_int hw_q)))) \<and>
     (fst (mt7601u_dma_enqueue_tx c sub dev skb wcid hw_q) = 0 \<longrightarrow>
      sub = 0 \<and>
      tx_used (tx_q (snd (snd (mt7601u_dma_enqueue_tx c sub dev skb wcid hw_q))) !
                 unat (q2ep (word_of_int hw_q))) =
        tx_used (tx_q dev ! unat (q2ep (word_of_int hw_q))) + 1 \<and>
      tx_end (tx_q (snd (snd (mt7601u_dma_enqueue_tx c sub dev skb wcid hw_q))) !
                 unat (q2ep (word_of_int hw_q))) =
        (tx_end (tx_q dev ! unat (q2ep (word_of_int hw_q))) + 1) mod
          tx_entries (tx_q dev ! unat (q2ep (word_of_int hw_q))))"
proof -
  let ?ep = "q2ep (word_of_int hw_q)"
  let ?skb = "mt7601u_dma_skb_wrap_pkt skb (ep2dmaq ?ep) (dma_flags c wcid)"
  have r: "mt7601u_dma_enqueue_tx c sub dev skb wcid hw_q =
             (fst (mt7601u_dma_submit_tx sub dev ?skb ?ep), ?skb,
              snd (mt7601u_dma_submit_tx sub dev ?skb ?ep))"
    by (simp add: mt7601u_dma_enqueue_tx_def Let_def)
  have full: "tx_used (tx_q dev ! unat ?ep) = tx_entries (tx_q dev ! unat ?ep) \<Longrightarrow>
      mt7601u_dma_submit_tx sub dev ?skb ?ep = (- ENOSPC, emit [Warn ''q->entries <= q->used''] dev)"
    by (rule submit_tx_full) simp
  show ?thesis
    unfolding r fst_conv snd_conv
    using submit_tx_error_keeps [OF ep, of sub ?skb] submit_tx_success [OF ep, of sub ?skb] full
    by (auto simp: emit_def)
qed

theorem enqueue_tx_no_space_witness:
  "unat (q2ep (word_of_int 0)) < length (tx_q (sample_tx_dev 64)) \<and>
   tx_ring_ok (tx_q (sample_tx_dev 64) ! unat (q2ep (word_of_int 0))) \<and>
   tx_used (tx_q (sample_tx_dev 64) ! unat (q2ep (word_of_int 0))) =
     tx_entries (tx_q (sample_tx_dev 64) ! unat (q2ep (word_of_int 0))) \<and>
   fst (mt7601u_dma_enqueue_tx sample_consts 0 (sample_tx_dev 64) sample_skb \<lparr>hw_key_idx = 0xff\<rparr> 0) = - ENOSPC \<and>
   tx_q (snd (snd (mt7601u_dma_enqueue_tx sample_consts 0 (sample_tx_dev 64) sample_skb \<lparr>hw_key_idx = 0xff\<rparr> 0))) =
     tx_q (sample_tx_dev 64) \<and>
   fst (mt7601u_dma_enqueue_tx sample_consts 0 (sample_tx_dev 3) sample_skb \<lparr>hw_key_idx = 0xff\<rparr> 0) = 0 \<and>
   tx_used (tx_q (snd (snd (mt7601u_dma_enqueue_tx sample_consts 0 (sample_tx_dev 3) sample_skb \<lparr>hw_key_idx = 0xff\<rparr> 0))) ! 1) = 4"
proof -
  have len: "unat (q2ep (word_of_int 0)) < length (tx_q (sample_tx_dev 64))"
    by (simp add: q2ep_def sample_tx_dev_def)
  have len3: "unat (q2ep (word_of_int 0)) < length (tx_q (sample_tx_dev 3))"
    by (simp add: q2ep_def sample_tx_dev_def)
  have full: "tx_used (tx_q (sample_tx_dev 64) ! unat (q2ep (word_of_int 0))) =
     tx_entries (tx_q (sample_tx_dev 64) ! unat (q2ep (word_of_int 0)))"
    by (simp add: q2ep_def sample_tx_dev_def sample_tx_queue_def)
  have ok: "fst (mt7601u_dma_enqueue_tx sample_consts 0 (sample_tx_dev 3) sample_skb \<lparr>hw_key_idx = 0xff\<rparr> 0) = 0"
    by (simp add: mt7601u_dma_enqueue_tx_def mt7601u_dma_submit_tx_def Let_def q2ep_def
        sample_tx_dev_def sample_tx_queue_def)
  have u3: "tx_used (tx_q (sample_tx_dev 3) ! unat (q2ep (word_of_int 0))) = 3"
    by (simp add: q2ep_def sample_tx_dev_def sample_tx_queue_def)
  have one: "unat (q2ep (word_of_int 0)) = 1" by (simp add: q2ep_def)
  have wf: "tx_ring_ok (tx_q (sample_tx_dev 64) ! unat (q2ep (word_of_int 0)))"
    by (simp add: q2ep_def sample_tx_dev_def sample_tx_queue_def tx_ring_ok_def)
  have wf3: "tx_ring_ok (tx_q (sample_tx_dev 3) ! unat (q2ep (word_of_int 0)))"
    by (simp add: q2ep_def sample_tx_dev_def sample_tx_queue_def tx_ring_ok_def)
  show ?thesis
    using enqueue_tx_no_space [OF len wf, of sample_consts 0 sample_skb "\<lparr>hw_key_idx = 0xff\<rparr>"]
          enqueue_tx_no_space [OF len3 wf3, of sample_consts 0 sample_skb "\<lparr>hw_key_idx = 0xff\<rparr>"]
          len wf full ok u3 one
    by simp
qed

text \<open>
  Claim C8. Transmit enqueue computes the endpoint as \<open>hw_q + 1\<close> (in the 8 bits of
  \<open>q2ep\<close>) and submits on that endpoint's queue. The DMA-control word pushed on the
  frame carries the management selector exactly when the endpoint is 5 and the contention
  selector otherwise, and has the \<open>MT_TXD_PKT_INFO_WIV\<close> flag set exactly when the peer's
  \<open>hw_key_idx\<close> is 0xFF. The two flag macros are taken to be distinct bits.
\<close>

theorem enqueue_tx_endpoint_and_flags:
  assumes "MT_TXD_PKT_INFO_80211 c AND MT_TXD_PKT_INFO_WIV c = 0"
      and "MT_TXD_PKT_INFO_WIV c \<noteq> 0"
  shows
    "q2ep (word_of_int hw_q) = word_of_int hw_q + 1 \<and>
     (0 \<le> hw_q \<and> hw_q < 255 \<longrightarrow> uint (q2ep (word_of_int hw_q)) = hw_q + 1) \<and>
     snd (snd (mt7601u_dma_enqueue_tx c sub dev skb wcid hw_q)) =
       snd (mt7601u_dma_submit_tx sub dev
              (fst (snd (mt7601u_dma_enqueue_tx c sub dev skb wcid hw_q))) (word_of_int hw_q + 1)) \<and>
     skb_txd (fst (snd (mt7601u_dma_enqueue_tx c sub dev skb wcid hw_q))) =
       \<lparr>txd_qsel = (if (word_of_int hw_q + 1 :: u8) = 5 then MT_QSEL_MGMT else MT_QSEL_EDCA),
        txd_flags = txd_flags (hd (skb_txd (fst (snd (mt7601u_dma_enqueue_tx c sub dev skb wcid hw_q)))))\<rparr>
       # skb_txd skb \<and>
     (txd_flags (hd (skb_txd (fst (snd (mt7601u_dma_enqueue_tx c sub dev skb wcid hw_q)))))
        AND MT_TXD_PKT_INFO_WIV c \<noteq> 0) = (hw_key_idx wcid = 0xff)"
proof -
  have w: "(MT_TXD_PKT_INFO_80211 c OR MT_TXD_PKT_INFO_WIV c) AND MT_TXD_PKT_INFO_WIV c
             = MT_TXD_PKT_INFO_WIV c"
    by (simp add: bit_eq_iff bit_simps)
  have u: "0 \<le> hw_q \<and> hw_q < 255 \<longrightarrow> uint (word_of_int hw_q + 1 :: u8) = hw_q + 1"
    by (simp add: uint_word_ariths uint_word_of_int)
  show ?thesis
    using assms w u
    by (simp add: mt7601u_dma_enqueue_tx_def Let_def q2ep_def ep2dmaq_def dma_flags_def
        mt7601u_dma_skb_wrap_pkt_def)
qed

theorem enqueue_tx_endpoint_and_flags_witness:
  "MT_TXD_PKT_INFO_80211 sample_consts AND MT_TXD_PKT_INFO_WIV sample_consts = 0 \<and>
   MT_TXD_PKT_INFO_WIV sample_consts \<noteq> 0 \<and>
   uint (q2ep (word_of_int 4)) = 5 \<and>
   skb_txd (fst (snd (mt7601u_dma_enqueue_tx sample_consts 0 (sample_tx_dev 3) sample_skb
      \<lparr>hw_key_idx = 0xff\<rparr> 4))) = [\<lparr>txd_qsel = MT_QSEL_MGMT, txd_flags = 0x1080000\<rparr>] \<and>
   skb_txd (fst (snd (mt7601u_dma_enqueue_tx sample_consts 0 (sample_tx_dev 3) sample_skb
      \<lparr>hw_key_idx = 7\<rparr> 1))) = [\<lparr>txd_qsel = MT_QSEL_EDCA, txd_flags = 0x80000\<rparr>]"
proof -
  have a: "MT_TXD_PKT_INFO_80211 sample_consts AND MT_TXD_PKT_INFO_WIV sample_consts = 0"
    by (simp add: sample_consts_def)
  have b: "MT_TXD_PKT_INFO_WIV sample_consts \<noteq> 0"
    by (simp add: sample_consts_def)
  have f1: "txd_flags (hd (skb_txd (fst (snd (mt7601u_dma_enqueue_tx sample_consts 0
      (sample_tx_dev 3) sample_skb \<lparr>hw_key_idx = 0xff\<rparr> 4))))) = 0x1080000"
    by (simp add: mt7601u_dma_enqueue_tx_def Let_def dma_flags_def mt7601u_dma_skb_wrap_pkt_def
        sample_consts_def)
  have f2: "txd_flags (hd (skb_txd (fst (snd (mt7601u_dma_enqueue_tx sample_consts 0
      (sample_tx_dev 3) sample_skb \<lparr>hw_key_idx = 7\<rparr> 1))))) = 0x80000"
    by (simp add: mt7601u_dma_enqueue_tx_def Let_def dma_flags_def mt7601u_dma_skb_wrap_pkt_def
        sample_consts_def)
  show ?thesis
    using enqueue_tx_endpoint_and_flags [OF a b, of 4 0 "sample_tx_dev 3" sample_skb "\<lparr>hw_key_idx = 0xff\<rparr>"]
          enqueue_tx_endpoint_and_flags [OF a b, of 1 0 "sample_tx_dev 3" sample_skb "\<lparr>hw_key_idx = 7\<rparr>"]
          a b f1 f2
    by (simp add: sample_skb_def)
qed

text \<open>
  Claim C9. Transmit enqueue pushes the DMA-control word on the caller's frame before
  \<open>mt7601u_dma_submit_tx\<close> checks the queue and submits: the frame the caller is left
  with is the wrapped one whatever the call returns, a submission that is made carries the
  wrapped frame, and when the call fails \<open>used\<close> and \<open>end\<close> of the queue are unchanged.
\<close>

theorem enqueue_tx_wraps_first:
  assumes ep: "unat (q2ep (word_of_int hw_q)) < length (tx_q dev)"
      and "tx_ring_ok (tx_q dev ! unat (q2ep (word_of_int hw_q)))"
  shows
    "fst (snd (mt7601u_dma_enqueue_tx c sub dev skb wcid hw_q)) =
       mt7601u_dma_skb_wrap_pkt skb (ep2dmaq (q2ep (word_of_int hw_q))) (dma_flags c wcid) \<and>
     fst (snd (mt7601u_dma_enqueue_tx c sub dev skb wcid hw_q)) \<noteq> skb \<and>
     map snd (submit_urb_calls (drop (length (log dev))
        (log (snd (snd (mt7601u_dma_enqueue_tx c sub dev skb wcid hw_q)))))) =
       (if tx_entries (tx_q dev ! unat (q2ep (word_of_int hw_q))) \<le>
           tx_used (tx_q dev ! unat (q2ep (word_of_int hw_q)))
        then [] else [fst (snd (mt7601u_dma_enqueue_tx c sub dev skb wcid hw_q))]) \<and>
     (fst (mt7601u_dma_enqueue_tx c sub dev skb wcid hw_q) \<noteq> 0 \<longrightarrow>
      tx_used (tx_q (snd (snd (mt7601u_dma_enqueue_tx c sub dev skb wcid hw_q))) !
                 unat (q2ep (word_of_int hw_q))) =
        tx_used (tx_q dev ! unat (q2ep (word_of_int hw_q))) \<and>
      tx_end (tx_q (snd (snd (mt7601u_dma_enqueue_tx c sub dev skb wcid hw_q))) !
                 unat (q2ep (word_of_int hw_q))) =
        tx_end (tx_q dev ! unat (q2ep (word_of_int hw_q))))"
proof -
  let ?ep = "q2ep (word_of_int hw_q)"
  let ?skb = "mt7601u_dma_skb_wrap_pkt skb (ep2dmaq ?ep) (dma_flags c wcid)"
  have r: "mt7601u_dma_enqueue_tx c sub dev skb wcid hw_q =
             (fst (mt7601u_dma_submit_tx sub dev ?skb ?ep), ?skb,
              snd (mt7601u_dma_submit_tx sub dev ?skb ?ep))"
    by (simp add: mt7601u_dma_enqueue_tx_def Let_def)
  have ne: "?skb \<noteq> skb"
  proof
    assume "?skb = skb"
    then have "skb_txd ?skb = skb_txd skb" by simp
    then show False by (simp add: mt7601u_dma_skb_wrap_pkt_def)
  qed
  have calls: "map snd (submit_urb_calls (drop (length (log dev))
        (log (snd (mt7601u_dma_submit_tx sub dev ?skb ?ep))))) =
       (if tx_entries (tx_q dev ! unat ?ep) \<le> tx_used (tx_q dev ! unat ?ep) then [] else [?skb])"
    by (simp add: mt7601u_dma_submit_tx_def Let_def emit_def submit_urb_calls_append)
  show ?thesis
    unfolding r fst_conv snd_conv
    using submit_tx_error_keeps [OF ep, of sub ?skb] ne calls by simp
qed

theorem enqueue_tx_wraps_first_witness:
  "unat (q2ep (word_of_int 0)) < length (tx_q (sample_tx_dev 64)) \<and>
   tx_ring_ok (tx_q (sample_tx_dev 64) ! unat (q2ep (word_of_int 0))) \<and>
   fst (mt7601u_dma_enqueue_tx sample_consts 0 (sample_tx_dev 64) sample_skb \<lparr>hw_key_idx = 0xff\<rparr> 0) = - 28 \<and>
   tx_used (tx_q (snd (snd (mt7601u_dma_enqueue_tx sample_consts 0 (sample_tx_dev 64) sample_skb
      \<lparr>hw_key_idx = 0xff\<rparr> 0))) ! 1) = 64 \<and>
   skb_txd sample_skb = [] \<and>
   skb_txd (fst (snd (mt7601u_dma_enqueue_tx sample_consts 0 (sample_tx_dev 64) sample_skb
      \<lparr>hw_key_idx = 0xff\<rparr> 0))) = [\<lparr>txd_qsel = MT_QSEL_EDCA, txd_flags = 0x1080000\<rparr>]"
proof -
  have len: "unat (q2ep (word_of_int 0)) < length (tx_q (sample_tx_dev 64))"
    by (simp add: q2ep_def sample_tx_dev_def)
  have ret: "fst (mt7601u_dma_enqueue_tx sample_consts 0 (sample_tx_dev 64) sample_skb \<lparr>hw_key_idx = 0xff\<rparr> 0) = - 28"
    by (simp add: mt7601u_dma_enqueue_tx_def mt7601u_dma_submit_tx_def Let_def q2ep_def
        sample_tx_dev_def sample_tx_queue_def ENOSPC_def)
  have u: "tx_used (tx_q (sample_tx_dev 64) ! unat (q2ep (word_of_int 0))) = 64"
    by (simp add: q2ep_def sample_tx_dev_def sample_tx_queue_def)
  have one: "unat (q2ep (word_of_int 0)) = 1" by (simp add: q2ep_def)
  have wf: "tx_ring_ok (tx_q (sample_tx_dev 64) ! unat (q2ep (word_of_int 0)))"
    by (simp add: q2ep_def sample_tx_dev_def sample_tx_queue_def tx_ring_ok_def)
  show ?thesis
    using enqueue_tx_wraps_first [OF len wf, of sample_consts 0 sample_skb "\<lparr>hw_key_idx = 0xff\<rparr>"]
      len wf ret u one
    by (simp add: mt7601u_dma_skb_wrap_pkt_def ep2dmaq_def q2ep_def dma_flags_def
        sample_consts_def sample_skb_def)
qed

subsection \<open>Receive reassembler\<close>

lemma ucast16_le: "(ucast (ucast (x::u32) :: u16) :: u32) \<le> x"
  by (simp add: word_le_nat_alt unsigned_ucast_eq unsigned_take_bit_eq)

lemma unat_ucast_16_32: "unat (ucast (r::u16) :: u32) = unat r"
proof -
  have "unat r < 2 ^ 16" using unsigned_less[of r, where 'a=nat] by simp
  then have "unat r < 2 ^ 32" by simp
  then show ?thesis by (simp add: unsigned_ucast_eq take_bit_nat_eq_self)
qed

lemma next_seg_len_le:
  assumes "mt7601u_rx_next_seg_len c mem data n \<noteq> 0"
  shows "(ucast (mt7601u_rx_next_seg_len c mem data n) :: u32) \<le> n"
proof -
  let ?d = "get_unaligned_le16 mem data"
  from assms have a: "\<not> (ucast ?d + MT_DMA_HDRS c > n)"
    and r: "mt7601u_rx_next_seg_len c mem data n = ucast (MT_DMA_HDRS c + ucast ?d :: u32)"
    by (auto simp: mt7601u_rx_next_seg_len_def Let_def split: if_splits)
  have "(ucast (ucast (MT_DMA_HDRS c + ucast ?d :: u32) :: u16) :: u32) \<le> MT_DMA_HDRS c + ucast ?d"
    by (rule ucast16_le)
  also have "\<dots> \<le> n" using a by (simp add: add.commute not_less)
  finally show ?thesis using r by simp
qed

lemma next_seg_len_decr:
  assumes "mt7601u_rx_next_seg_len c mem data n \<noteq> 0"
  shows "unat (mt7601u_rx_next_seg_len c mem data n) \<le> unat n \<and>
         unat (n - ucast (mt7601u_rx_next_seg_len c mem data n)) < unat n"
proof -
  let ?r = "mt7601u_rx_next_seg_len c mem data n"
  have le: "(ucast ?r :: u32) \<le> n" using assms by (rule next_seg_len_le)
  have pos: "0 < unat (ucast ?r :: u32)" using assms
    by (simp add: unat_ucast_16_32 unat_gt_0)
  have "unat (n - ucast ?r) = unat n - unat (ucast ?r :: u32)" using le by (rule unat_sub)
  moreover have "unat (ucast ?r :: u32) \<le> unat n" using le by (simp add: word_le_nat_alt)
  ultimately show ?thesis using pos by (simp add: unat_ucast_16_32)
qed

lemma rx_segments_total:
  "\<exists>r. rx_segments c env mem data n cnt evs = Some r"
proof (induction "unat n" arbitrary: n data cnt evs rule: less_induct)
  case less
  show ?case
  proof (cases "mt7601u_rx_next_seg_len c mem data n = 0")
    case True
    then show ?thesis by (subst rx_segments.simps) simp
  next
    case False
    from next_seg_len_decr[OF False] less.hyps
    show ?thesis by (subst rx_segments.simps) (simp add: False)
  qed
qed

lemma aligned_nonzero_ge_4:
  fixes d :: u16
  assumes "d \<noteq> 0" and "d AND 3 = 0"
  shows "4 \<le> unat d"
proof -
  have "d AND 3 = take_bit 2 d"
    by (simp add: take_bit_eq_mask mask_eq_exp_minus_1)
  with assms(2) have "unat (take_bit 2 d) = 0" by simp
  then have "take_bit 2 (unat d) = 0" by (simp only: unsigned_take_bit_eq)
  then have "unat d mod 4 = 0" by (simp add: take_bit_eq_mod)
  moreover from assms(1) have "unat d \<noteq> 0" by (simp add: unat_eq_0)
  ultimately show ?thesis by presburger
qed

lemma seg_sum_exact:
  fixes h :: u32 and d :: u16
  assumes "unat h + unat d < 65536"
  shows "unat (h + ucast d) = unat h + unat d"
    and "unat (ucast d + h) = unat h + unat d"
    and "unat (ucast (h + ucast d :: u32) :: u16) = unat h + unat d"
proof -
  have s: "unat (h + ucast d) = unat h + unat d"
    using assms by (simp add: unat_word_ariths unat_ucast_16_32)
  show "unat (h + ucast d) = unat h + unat d" by (rule s)
  show "unat (ucast d + h) = unat h + unat d" using s by (simp add: add.commute)
  show "unat (ucast (h + ucast d :: u32) :: u16) = unat h + unat d"
    using assms s by (simp add: unsigned_ucast_eq take_bit_nat_eq_self)
qed

lemma next_seg_len_exact:
  assumes "unat (MT_DMA_HDRS c) + unat (get_unaligned_le16 mem data) < 65536"
  shows "(mt7601u_rx_next_seg_len c mem data n = 0) =
           (n < min_seg_len c \<or> get_unaligned_le16 mem data = 0 \<or>
            get_unaligned_le16 mem data AND 3 \<noteq> 0 \<or>
            unat n < unat (MT_DMA_HDRS c) + unat (get_unaligned_le16 mem data))"
    and "mt7601u_rx_next_seg_len c mem data n \<noteq> 0 \<Longrightarrow>
           unat (mt7601u_rx_next_seg_len c mem data n) =
             unat (MT_DMA_HDRS c) + unat (get_unaligned_le16 mem data)"
proof -
  let ?d = "get_unaligned_le16 mem data"
  let ?h = "MT_DMA_HDRS c"
  note ex = seg_sum_exact [OF assms]
  have gt: "(ucast ?d + ?h > n) = (unat n < unat ?h + unat ?d)"
    by (simp add: word_less_nat_alt ex)
  show "mt7601u_rx_next_seg_len c mem data n \<noteq> 0 \<Longrightarrow>
           unat (mt7601u_rx_next_seg_len c mem data n) = unat ?h + unat ?d"
    by (auto simp: mt7601u_rx_next_seg_len_def Let_def ex split: if_splits)
  show "(mt7601u_rx_next_seg_len c mem data n = 0) =
           (n < min_seg_len c \<or> ?d = 0 \<or> ?d AND 3 \<noteq> 0 \<or> unat n < unat ?h + unat ?d)"
  proof (cases "n < min_seg_len c \<or> ?d = 0 \<or> ?d AND 3 \<noteq> 0 \<or> unat n < unat ?h + unat ?d")
    case True
    then show ?thesis using gt by (auto simp: mt7601u_rx_next_seg_len_def Let_def)
  next
    case False
    then have d4: "4 \<le> unat ?d" using aligned_nonzero_ge_4 by blast
    have "unat (ucast (?h + ucast ?d :: u32) :: u16) \<noteq> 0" using ex(3) d4 by simp
    then have "(ucast (?h + ucast ?d :: u32) :: u16) \<noteq> 0" by (metis unat_0)
    with False gt show ?thesis by (auto simp: mt7601u_rx_next_seg_len_def Let_def)
  qed
qed


lemma rx_process_entry_total:
  "\<exists>dev'. mt7601u_rx_process_entry c env dev i = Some dev'"
proof (cases "initialized dev")
  case False
  then show ?thesis by (simp add: mt7601u_rx_process_entry_def)
next
  case True
  obtain cnt evs where
    "rx_segments c env (buf (rx_e (rx_q dev) ! i)) 0
       (actual_length (rx_urb (rx_e (rx_q dev) ! i))) 0 [] = Some (cnt, evs)"
    using rx_segments_total by (metis surj_pair)
  with True show ?thesis by (simp add: mt7601u_rx_process_entry_def)
qed

lemma sample_le16_0: "get_unaligned_le16 (mem_of sample_rx_bytes) 0 = 36"
  by (simp add: get_unaligned_le16_def mem_of_def sample_rx_bytes_def)


lemma sample_next_0: "mt7601u_rx_next_seg_len sample_consts (mem_of sample_rx_bytes) 0 44 = 44"
  by (simp add: mt7601u_rx_next_seg_len_def Let_def sample_le16_0 min_seg_len_def sample_consts_def)

lemma sample_next_44: "mt7601u_rx_next_seg_len sample_consts (mem_of sample_rx_bytes) 44 0 = 0"
  by (simp add: mt7601u_rx_next_seg_len_def Let_def min_seg_len_def sample_consts_def)

lemma sample_process_seg:
  "mt7601u_rx_process_seg sample_consts (True, False) (mem_of sample_rx_bytes) 0 44 =
     [Trace_mt_rx,
      Mac_process_rx \<lparr>skb_data = [1, 2, 3, 4, 5, 6, 7, 8], skb_size = 8, queue_mapping = 0, skb_txd = []\<rparr>,
      Ieee80211_rx_ni \<lparr>skb_data = [1, 2, 3, 4, 5, 6, 7, 8], skb_size = 8, queue_mapping = 0, skb_txd = []\<rparr>]"
  by code_simp

lemma sample_rx_segments:
  "rx_segments sample_consts (\<lambda>k. (True, False)) (mem_of sample_rx_bytes) 0 44 0 [] =
     Some (1, [Trace_mt_rx,
      Mac_process_rx \<lparr>skb_data = [1, 2, 3, 4, 5, 6, 7, 8], skb_size = 8, queue_mapping = 0, skb_txd = []\<rparr>,
      Ieee80211_rx_ni \<lparr>skb_data = [1, 2, 3, 4, 5, 6, 7, 8], skb_size = 8, queue_mapping = 0, skb_txd = []\<rparr>])"
  apply (subst rx_segments.simps)
  apply (simp add: sample_next_0 sample_process_seg)
  apply (subst rx_segments.simps)
  apply (simp add: sample_next_44)
  done

lemma mem_bytes_add:
  "mem_bytes mem p (a + b) = mem_bytes mem p a @ mem_bytes mem (p + int a) b"
proof (induction b)
  case 0
  then show ?case by (simp add: mem_bytes_def)
next
  case (Suc b)
  have "mem_bytes mem p (a + Suc b) = mem_bytes mem p (a + b) @ [mem (p + int (a + b))]"
    by (simp add: mem_bytes_def)
  also have "\<dots> = mem_bytes mem p a @ mem_bytes mem (p + int a) b @ [mem (p + int a + int b)]"
    using Suc.IH by (simp add: add.assoc)
  also have "mem_bytes mem (p + int a) b @ [mem (p + int a + int b)] = mem_bytes mem (p + int a) (Suc b)"
    by (simp add: mem_bytes_def)
  finally show ?case .
qed

lemma length_mem_bytes: "length (mem_bytes mem p n) = n"
  by (simp add: mem_bytes_def)

lemma hdrlen_from_buf_le: "ieee80211_get_hdrlen_from_buf c mem data len \<le> len"
  by (simp add: ieee80211_get_hdrlen_from_buf_def not_less)




text \<open>
  Claim C10, as the code has it. The reassembly loop returns for every memory contents,
  cursor and \<open>data_len\<close>, and so does \<open>mt7601u_rx_process_entry\<close>: a non-zero segment
  length is positive and at most the remaining length, so the remaining length strictly
  decreases. The segment length is at least \<open>MT_DMA_HDRS + 4\<close> when
  \<open>MT_DMA_HDRS + dma_len\<close> fits 16 bits.
\<close>

theorem rx_reassembly_terminates:
  "(\<exists>r. rx_segments c env mem data n cnt evs = Some r) \<and>
   (\<exists>dev'. mt7601u_rx_process_entry c env dev i = Some dev') \<and>
   (mt7601u_rx_next_seg_len c mem data n \<noteq> 0 \<longrightarrow>
      0 < unat (mt7601u_rx_next_seg_len c mem data n) \<and>
      unat (mt7601u_rx_next_seg_len c mem data n) \<le> unat n \<and>
      unat (n - ucast (mt7601u_rx_next_seg_len c mem data n)) < unat n) \<and>
   (mt7601u_rx_next_seg_len c mem data n \<noteq> 0 \<and>
    unat (MT_DMA_HDRS c) + unat (get_unaligned_le16 mem data) < 65536 \<longrightarrow>
      unat (MT_DMA_HDRS c) + 4 \<le> unat (mt7601u_rx_next_seg_len c mem data n))"
proof (intro conjI impI)
  show "\<exists>r. rx_segments c env mem data n cnt evs = Some r" by (rule rx_segments_total)
  show "\<exists>dev'. mt7601u_rx_process_entry c env dev i = Some dev'" by (rule rx_process_entry_total)
next
  assume nz: "mt7601u_rx_next_seg_len c mem data n \<noteq> 0"
  then show "0 < unat (mt7601u_rx_next_seg_len c mem data n)" by (simp add: unat_gt_0)
  from next_seg_len_decr [OF nz]
  show "unat (mt7601u_rx_next_seg_len c mem data n) \<le> unat n"
    and "unat (n - ucast (mt7601u_rx_next_seg_len c mem data n)) < unat n"
    by simp_all
next
  assume a: "mt7601u_rx_next_seg_len c mem data n \<noteq> 0 \<and>
    unat (MT_DMA_HDRS c) + unat (get_unaligned_le16 mem data) < 65536"
  then have d: "get_unaligned_le16 mem data \<noteq> 0" "get_unaligned_le16 mem data AND 3 = 0"
    by (auto simp: mt7601u_rx_next_seg_len_def Let_def split: if_splits)
  from a next_seg_len_exact(2) [of c mem data n] aligned_nonzero_ge_4 [OF d]
  show "unat (MT_DMA_HDRS c) + 4 \<le> unat (mt7601u_rx_next_seg_len c mem data n)" by simp
qed

theorem rx_reassembly_terminates_witness:
  "mt7601u_rx_next_seg_len sample_consts (mem_of sample_rx_bytes) 0 44 = 44 \<and>
   unat (MT_DMA_HDRS sample_consts) + unat (get_unaligned_le16 (mem_of sample_rx_bytes) 0) < 65536 \<and>
   unat (44 - ucast (mt7601u_rx_next_seg_len sample_consts (mem_of sample_rx_bytes) 0 44) :: u32) < 44 \<and>
   rx_segments sample_consts (\<lambda>k. (True, False)) (mem_of sample_rx_bytes) 0 44 0 [] =
     Some (1, [Trace_mt_rx,
      Mac_process_rx \<lparr>skb_data = [1, 2, 3, 4, 5, 6, 7, 8], skb_size = 8, queue_mapping = 0, skb_txd = []\<rparr>,
      Ieee80211_rx_ni \<lparr>skb_data = [1, 2, 3, 4, 5, 6, 7, 8], skb_size = 8, queue_mapping = 0, skb_txd = []\<rparr>])"
proof -
  have h: "MT_DMA_HDRS sample_consts = 8" by (simp add: sample_consts_def)
  show ?thesis
    using rx_reassembly_terminates [of sample_consts "\<lambda>k. (True, False)" "mem_of sample_rx_bytes" 0 44 0 "[]"]
    by (simp add: sample_next_0 sample_le16_0 sample_rx_segments h)
qed

text \<open>
  With \<open>dma_len = 0xFFFC\<close> in a region of 65540 bytes the segment length is 4, below
  \<open>MT_DMA_HDRS + 4\<close>.
\<close>

theorem rx_reassembly_terminates_counterexample:
  "get_unaligned_le16 (mem_of [0xFC, 0xFF]) 0 = 0xFFFC \<and>
   (0xFFFC :: u16) AND 3 = 0 \<and>
   mt7601u_rx_next_seg_len sample_consts (mem_of [0xFC, 0xFF]) 0 65540 = 4 \<and>
   unat (4 :: u16) < unat (MT_DMA_HDRS sample_consts) + 4"
proof -
  have l: "get_unaligned_le16 (mem_of [0xFC, 0xFF]) 0 = 0xFFFC"
    by (simp add: get_unaligned_le16_def mem_of_def)
  have z: "mt7601u_rx_next_seg_len sample_consts (mem_of [0xFC, 0xFF]) 0 65540 = 4"
    by (simp add: mt7601u_rx_next_seg_len_def Let_def l min_seg_len_def sample_consts_def)
  show ?thesis using l z by (simp add: sample_consts_def)
qed

text \<open>
  Claim C4. Let the L2-pad flag be set and the payload of \<open>seg_len\<close> bytes consist of a
  header, two pad bytes and the rest, where the header has the length that
  \<open>ieee80211_get_hdrlen_from_buf\<close> computes on the payload less the two pad bytes: the
  value of \<open>ieee80211_hdrlen\<close> on the frame-control field, or 0 when fewer than 10 bytes
  are available or that value exceeds them. When the allocation succeeds, the frame holds
  the header followed by the rest, and it was allocated with exactly that length. With
  the flag clear the frame holds the payload unchanged.
\<close>

theorem l2pad_roundtrip:
  assumes pad: "l2pad c rxwi"
      and small: "unat seg_len < 2 ^ 31"
      and bytes: "mem_bytes mem data (unat seg_len) = hdr @ pd @ rest"
      and pd: "length pd = 2"
      and hdr: "length hdr = unat (ieee80211_get_hdrlen_from_buf c mem data (seg_len - 2))"
  shows
    "mt7601u_rx_skb_from_seg c True rxwi mem data seg_len =
       Some \<lparr>skb_data = hdr @ rest, skb_size = length (hdr @ rest),
             queue_mapping = 0, skb_txd = []\<rparr> \<and>
     ieee80211_get_hdrlen_from_buf c mem data (seg_len - 2) =
       (if seg_len - 2 < 10 \<or> seg_len - 2 < ieee80211_hdrlen c (get_unaligned_le16 mem data)
        then 0 else ieee80211_hdrlen c (get_unaligned_le16 mem data)) \<and>
     (\<not> l2pad c rxwi0 \<longrightarrow>
        mt7601u_rx_skb_from_seg c True rxwi0 mem data seg_len =
          Some \<lparr>skb_data = mem_bytes mem data (unat seg_len), skb_size = unat seg_len,
                queue_mapping = 0, skb_txd = []\<rparr>)"
proof (intro conjI impI)
  let ?H = "ieee80211_get_hdrlen_from_buf c mem data (seg_len - 2)"
  have len: "unat seg_len = length hdr + 2 + length rest"
    using arg_cong [OF bytes, of length] pd by (simp add: length_mem_bytes)
  then have two: "2 \<le> seg_len" by (simp add: word_le_nat_alt)
  have s2: "unat (seg_len - 2) = length hdr + length rest"
    using unat_sub [OF two] len by simp
  have Hle: "?H \<le> seg_len - 2" by (rule hdrlen_from_buf_le)
  have s3: "unat (seg_len - 2 - ?H) = length rest"
    using unat_sub [OF Hle] s2 hdr by simp
  have uH: "uint ?H = int (length hdr)" by (simp only: hdr uint_nat)
  have "int (length hdr) < 2 ^ 31" using len small by simp
  then have "signed_take_bit 31 (int (length hdr)) = int (length hdr)"
    by (intro signed_take_bit_int_eq_self) simp_all
  then have sH: "sint ?H = int (length hdr)"
    by (simp only: sint_uint uH) simp
  have a: "mem_bytes mem data (length hdr + (2 + length rest)) =
      mem_bytes mem data (length hdr) @ mem_bytes mem (data + int (length hdr)) (2 + length rest)"
    by (rule mem_bytes_add)
  have b: "mem_bytes mem (data + int (length hdr)) (2 + length rest) =
      mem_bytes mem (data + int (length hdr)) 2 @
      mem_bytes mem (data + int (length hdr) + int 2) (length rest)"
    by (rule mem_bytes_add)
  have "unat seg_len = length hdr + (2 + length rest)" using len by simp
  with bytes a have "mem_bytes mem data (length hdr) @
      mem_bytes mem (data + int (length hdr)) (2 + length rest) = hdr @ pd @ rest"
    by (simp only:)
  then have h1: "mem_bytes mem data (length hdr) = hdr"
    and "mem_bytes mem (data + int (length hdr)) (2 + length rest) = pd @ rest"
    by (simp_all add: length_mem_bytes)
  with b have "mem_bytes mem (data + int (length hdr)) 2 @
      mem_bytes mem (data + int (length hdr) + int 2) (length rest) = pd @ rest"
    by (simp only:)
  then have "mem_bytes mem (data + int (length hdr) + int 2) (length rest) = rest"
    using pd by (simp add: length_mem_bytes)
  then have h2: "mem_bytes mem (data + (int (length hdr) + 2)) (length rest) = rest"
    by (simp add: add.assoc)
  show "mt7601u_rx_skb_from_seg c True rxwi mem data seg_len =
       Some \<lparr>skb_data = hdr @ rest, skb_size = length (hdr @ rest),
             queue_mapping = 0, skb_txd = []\<rparr>"
    using pad s2 s3 sH h1 h2 hdr
    by (simp add: mt7601u_rx_skb_from_seg_def Let_def)
  show "ieee80211_get_hdrlen_from_buf c mem data (seg_len - 2) =
       (if seg_len - 2 < 10 \<or> seg_len - 2 < ieee80211_hdrlen c (get_unaligned_le16 mem data)
        then 0 else ieee80211_hdrlen c (get_unaligned_le16 mem data))"
    by (simp add: ieee80211_get_hdrlen_from_buf_def)
next
  assume "\<not> l2pad c rxwi0"
  then show "mt7601u_rx_skb_from_seg c True rxwi0 mem data seg_len =
          Some \<lparr>skb_data = mem_bytes mem data (unat seg_len), skb_size = unat seg_len,
                queue_mapping = 0, skb_txd = []\<rparr>"
    by (simp add: mt7601u_rx_skb_from_seg_def Let_def)
qed

theorem l2pad_roundtrip_witness:
  "l2pad sample_consts \<lparr>rxinfo = 0x4000, zero = [0, 0, 0]\<rparr> \<and>
   \<not> l2pad sample_consts \<lparr>rxinfo = 0, zero = [0, 0, 0]\<rparr> \<and>
   mem_bytes (mem_of sample_padded) 0 (unat (30 :: u32)) = replicate 24 7 @ [0xAA, 0xBB] @ [1, 2, 3, 4] \<and>
   ieee80211_get_hdrlen_from_buf sample_consts (mem_of sample_padded) 0 28 = 24 \<and>
   mt7601u_rx_skb_from_seg sample_consts True \<lparr>rxinfo = 0x4000, zero = [0, 0, 0]\<rparr>
       (mem_of sample_padded) 0 30 =
     Some \<lparr>skb_data = replicate 24 7 @ [1, 2, 3, 4], skb_size = 28, queue_mapping = 0, skb_txd = []\<rparr> \<and>
   mt7601u_rx_skb_from_seg sample_consts True \<lparr>rxinfo = 0, zero = [0, 0, 0]\<rparr>
       (mem_of sample_padded) 0 30 =
     Some \<lparr>skb_data = replicate 24 7 @ [0xAA, 0xBB] @ [1, 2, 3, 4], skb_size = 30, queue_mapping = 0,
           skb_txd = []\<rparr>"
proof -
  have p: "l2pad sample_consts \<lparr>rxinfo = 0x4000, zero = [0, 0, 0]\<rparr>"
    by (simp add: l2pad_def sample_consts_def)
  have np: "\<not> l2pad sample_consts \<lparr>rxinfo = 0, zero = [0, 0, 0]\<rparr>"
    by (simp add: l2pad_def sample_consts_def)
  have s: "unat (30 :: u32) < 2 ^ 31" by simp
  have b: "mem_bytes (mem_of sample_padded) 0 (unat (30 :: u32)) =
             replicate 24 7 @ [0xAA, 0xBB] @ [1, 2, 3, 4]"
    by code_simp
  have l: "length [0xAA, 0xBB :: u8] = 2" by simp
  have g: "ieee80211_get_hdrlen_from_buf sample_consts (mem_of sample_padded) 0 28 = 24"
    by (simp add: ieee80211_get_hdrlen_from_buf_def sample_consts_def)
  have h: "length (replicate 24 (7 :: u8)) =
             unat (ieee80211_get_hdrlen_from_buf sample_consts (mem_of sample_padded) 0 (30 - 2))"
    by (simp add: g)
  show ?thesis
    using l2pad_roundtrip [OF p s b l h, of "\<lparr>rxinfo = 0, zero = [0, 0, 0]\<rparr>"] p np b g
    by simp
qed

subsection \<open>Receive ring\<close>

lemma unat_inc_le: "unat (p + 1 :: u32) \<le> unat p + 1"
  by (simp add: unat_word_ariths)

lemma unat_dec: "p \<noteq> 0 \<Longrightarrow> unat (p - 1 :: u32) = unat p - 1"
  by (simp add: unat_minus_one)

lemma complete_rx_rx_q:
  "rx_q (mt7601u_complete_rx c u dev) = rx_q dev \<or>
   rx_q (mt7601u_complete_rx c u dev) =
     (rx_q dev)\<lparr>rx_end := (rx_end (rx_q dev) + 1) mod rx_entries (rx_q dev),
                rx_pending := rx_pending (rx_q dev) + 1\<rparr>"
  by (simp add: mt7601u_complete_rx_def Let_def emit_def)

lemma complete_rx_inflight:
  "rx_inflight (mt7601u_complete_rx c u dev) = rx_inflight dev"
  by (simp add: mt7601u_complete_rx_def Let_def emit_def)

lemma usb_complete_rx_pending:
  "unat (rx_pending (rx_q (usb_complete_rx c u st len dev))) \<le> unat (rx_pending (rx_q dev)) + 1"
  using complete_rx_rx_q [of c "\<lparr>urb_id = u, urb_status = st, actual_length = len\<rparr>"
      "write_rx_urb \<lparr>urb_id = u, urb_status = st, actual_length = len\<rparr>
          (dev\<lparr>rx_inflight := remove1 u (rx_inflight dev)\<rparr>)"]
    unat_inc_le [of "rx_pending (rx_q dev)"]
  by (auto simp: usb_complete_rx_def write_rx_urb_def)

lemma usb_complete_rx_inflight:
  "rx_inflight (usb_complete_rx c u st len dev) = remove1 u (rx_inflight dev)"
  by (simp add: usb_complete_rx_def complete_rx_inflight write_rx_urb_def)

lemma rx_step_count: "rx_count (rx_step c s a) \<le> rx_count s"
proof (cases a)
  case (Complete st len)
  show ?thesis
  proof (cases "rx_inflight (sys_dev s)")
    case Nil
    with Complete show ?thesis by (simp add: rx_step_def)
  next
    case (Cons u rest)
    with Complete usb_complete_rx_pending [of c u st len "sys_dev s"]
    show ?thesis by (simp add: rx_step_def rx_count_def usb_complete_rx_inflight)
  qed
next
  case Pop
  then show ?thesis
    by (cases "held s")
       (simp_all add: rx_step_def rx_count_def mt7601u_rx_get_pending_entry_def Let_def unat_dec
          unat_gt_0 Suc_leI)
next
  case Resubmit
  then show ?thesis
    by (cases "held s")
       (simp_all add: rx_step_def rx_count_def mt7601u_usb_submit_buf_def Let_def emit_def)
qed

lemma rx_run_count: "rx_count (rx_run c s acts) \<le> rx_count s"
proof (induction acts arbitrary: s)
  case Nil
  then show ?case by (simp add: rx_run_def)
next
  case (Cons a acts)
  have "rx_count (rx_run c (rx_step c s a) acts) \<le> rx_count (rx_step c s a)"
    using Cons.IH [of "rx_step c s a"] .
  also have "\<dots> \<le> rx_count s" by (rule rx_step_count)
  finally show ?case by (simp add: rx_run_def)
qed

lemma rx_count_init: "rx_count (rx_init n) = n"
  by (simp add: rx_count_def rx_init_def rx_ring_def)

lemma rx_pending_bounded:
  "unat (rx_pending (rx_q (sys_dev (rx_run c (rx_init n) acts)))) \<le> n"
proof -
  have "unat (rx_pending (rx_q (sys_dev (rx_run c (rx_init n) acts)))) \<le>
          rx_count (rx_run c (rx_init n) acts)"
    by (simp add: rx_count_def)
  also have "\<dots> \<le> rx_count (rx_init n)" by (rule rx_run_count)
  finally show ?thesis by (simp add: rx_count_init)
qed


lemma get_pending_frame:
  "rx_end (rx_q (snd (mt7601u_rx_get_pending_entry dev))) = rx_end (rx_q dev) \<and>
   (rx_pending (rx_q dev) = 0 \<longrightarrow> mt7601u_rx_get_pending_entry dev = (None, dev)) \<and>
   (rx_pending (rx_q dev) \<noteq> 0 \<longrightarrow>
      fst (mt7601u_rx_get_pending_entry dev) = Some (unat (rx_start (rx_q dev))) \<and>
      rx_start (rx_q (snd (mt7601u_rx_get_pending_entry dev))) =
        (rx_start (rx_q dev) + 1) mod rx_entries (rx_q dev) \<and>
      rx_pending (rx_q (snd (mt7601u_rx_get_pending_entry dev))) = rx_pending (rx_q dev) - 1)"
  by (simp add: mt7601u_rx_get_pending_entry_def Let_def)

lemma complete_rx_frame:
  "rx_start (rx_q (mt7601u_complete_rx c u dev)) = rx_start (rx_q dev) \<and>
   (rx_end (rx_q (mt7601u_complete_rx c u dev)) = rx_end (rx_q dev) \<and>
    rx_pending (rx_q (mt7601u_complete_rx c u dev)) = rx_pending (rx_q dev) \<or>
    rx_end (rx_q (mt7601u_complete_rx c u dev)) =
      (rx_end (rx_q dev) + 1) mod rx_entries (rx_q dev) \<and>
    rx_pending (rx_q (mt7601u_complete_rx c u dev)) = rx_pending (rx_q dev) + 1)"
  using complete_rx_rx_q [of c u dev] by auto

lemma rx_step_frame:
  "(rx_end (rx_q (sys_dev (rx_step c s a))) \<noteq> rx_end (rx_q (sys_dev s)) \<longrightarrow>
      is_complete a \<and>
      rx_pending (rx_q (sys_dev (rx_step c s a))) = rx_pending (rx_q (sys_dev s)) + 1) \<and>
   (rx_start (rx_q (sys_dev (rx_step c s a))) \<noteq> rx_start (rx_q (sys_dev s)) \<longrightarrow>
      a = Pop \<and>
      rx_pending (rx_q (sys_dev (rx_step c s a))) = rx_pending (rx_q (sys_dev s)) - 1)"
proof (cases a)
  case (Complete st len)
  show ?thesis
  proof (cases "rx_inflight (sys_dev s)")
    case Nil
    with Complete show ?thesis by (simp add: rx_step_def)
  next
    case (Cons u rest)
    with Complete
      complete_rx_frame [of c "\<lparr>urb_id = u, urb_status = st, actual_length = len\<rparr>"
        "write_rx_urb \<lparr>urb_id = u, urb_status = st, actual_length = len\<rparr>
           ((sys_dev s)\<lparr>rx_inflight := remove1 u (rx_inflight (sys_dev s))\<rparr>)"]
    show ?thesis by (auto simp: rx_step_def usb_complete_rx_def write_rx_urb_def)
  qed
next
  case Pop
  with get_pending_frame [of "sys_dev s"] show ?thesis
    by (cases "rx_pending (rx_q (sys_dev s)) = 0") (simp_all add: rx_step_def)
next
  case Resubmit
  then show ?thesis
    by (cases "held s") (simp_all add: rx_step_def mt7601u_usb_submit_buf_def Let_def emit_def)
qed

lemma filled_init: "n < 2 ^ 32 \<Longrightarrow> filled n 0 (rx_init n)"
  by (simp add: filled_def rx_init_def rx_ring_def comp_def unat_of_nat)

lemma write_rx_urb_ids:
  "map (\<lambda>b. urb_id (rx_urb b)) (rx_e (rx_q (write_rx_urb u dev))) =
   map (\<lambda>b. urb_id (rx_urb b)) (rx_e (rx_q dev))"
  by (simp add: write_rx_urb_def comp_def) 

lemma filled_step:
  assumes f: "filled n k s" and k: "k < n" and n: "n < 2 ^ 32"
  shows "filled n (Suc k) (rx_step c s (Complete st len))"
proof -
  let ?u = "\<lparr>urb_id = k, urb_status = st, actual_length = len\<rparr>"
  let ?d = "write_rx_urb ?u ((sys_dev s)\<lparr>rx_inflight := remove1 k (rx_inflight (sys_dev s))\<rparr>)"
  from f k have infl: "rx_inflight (sys_dev s) = k # [Suc k..<n]"
    by (simp add: filled_def upt_conv_Cons)
  have ids: "map (\<lambda>b. urb_id (rx_urb b)) (rx_e (rx_q ?d)) = [0..<n]"
    using f by (simp add: write_rx_urb_ids filled_def)
  have e: "unat (rx_end (rx_q ?d)) = k" using f k by (simp add: write_rx_urb_def filled_def)
  have "length (rx_e (rx_q ?d)) = n" using arg_cong [OF ids, of length] by simp
  then have "urb_id (rx_urb (rx_e (rx_q ?d) ! k)) = [0..<n] ! k"
    using k nth_map [of k "rx_e (rx_q ?d)" "\<lambda>b. urb_id (rx_urb b)"] ids by simp
  then have hit: "urb_id (rx_urb (rx_e (rx_q ?d) ! unat (rx_end (rx_q ?d)))) = urb_id ?u"
    using k e by simp
  have step: "sys_dev (rx_step c s (Complete st len)) = mt7601u_complete_rx c ?u ?d"
    by (simp add: rx_step_def infl usb_complete_rx_def)
  have upd: "rx_q (mt7601u_complete_rx c ?u ?d) =
      (rx_q ?d)\<lparr>rx_end := (rx_end (rx_q ?d) + 1) mod rx_entries (rx_q ?d),
                 rx_pending := rx_pending (rx_q ?d) + 1\<rparr>"
    using hit by (simp add: mt7601u_complete_rx_def Let_def emit_def)
  have infl': "rx_inflight (mt7601u_complete_rx c ?u ?d) = [Suc k..<n]"
    by (simp add: complete_rx_inflight write_rx_urb_def infl)
  have ent: "unat (rx_entries (rx_q ?d)) = n" using f by (simp add: write_rx_urb_def filled_def)
  have pen: "unat (rx_pending (rx_q ?d)) = k" using f by (simp add: write_rx_urb_def filled_def)
  have e1: "unat (rx_end (rx_q ?d) + 1) = Suc k"
    using e k n by (simp add: unat_word_ariths)
  have p1: "unat (rx_pending (rx_q ?d) + 1) = Suc k"
    using pen k n by (simp add: unat_word_ariths)
  have "unat ((rx_end (rx_q ?d) + 1) mod rx_entries (rx_q ?d)) = Suc k mod n"
    by (simp only: unat_mod e1 ent)
  then show ?thesis
    using ids infl' p1 ent by (simp add: filled_def step upd)
qed

lemma filled_run:
  assumes "filled n k s" and "k + length acts \<le> n" and "n < 2 ^ 32"
      and "\<forall>a\<in>set acts. is_complete a"
  shows "filled n (k + length acts) (rx_run c s acts)"
  using assms
proof (induction acts arbitrary: k s)
  case Nil
  then show ?case by (simp add: rx_run_def)
next
  case (Cons a acts)
  from Cons.prems(4) obtain st len where a: "a = Complete st len"
    by (cases a) simp_all
  from Cons.prems have "k < n" by simp
  then have "filled n (Suc k) (rx_step c s a)"
    unfolding a using Cons.prems(1,3) by (intro filled_step)
  then have "filled n (Suc k + length acts) (rx_run c (rx_step c s a) acts)"
    using Cons.prems by (intro Cons.IH) simp_all
  then show ?case by (simp add: rx_run_def)
qed

lemma rx_all_completed:
  assumes "n < 2 ^ 32" and "length acts = n" and "\<forall>a\<in>set acts. is_complete a"
  shows "unat (rx_pending (rx_q (sys_dev (rx_run c (rx_init n) acts)))) = n"
  using filled_run [OF filled_init [OF assms(1)], of acts c] assms
  by (simp add: filled_def)

lemma submit_buf_calls_append:
  "submit_buf_calls (xs @ ys) = submit_buf_calls xs @ submit_buf_calls ys"
  by (induction xs rule: submit_buf_calls.induct) simp_all

lemma process_seg_no_submit:
  "submit_buf_calls (mt7601u_rx_process_seg c e mem data seg_len) = []"
  by (simp add: mt7601u_rx_process_seg_def Let_def submit_buf_calls_append split: option.split)

lemma rx_segments_no_submit:
  "rx_segments c env mem data n cnt evs = Some (cnt', evs') \<Longrightarrow>
   submit_buf_calls evs' = submit_buf_calls evs"
proof (induction "unat n" arbitrary: n data cnt evs rule: less_induct)
  case less
  show ?case
  proof (cases "mt7601u_rx_next_seg_len c mem data n = 0")
    case True
    with less.prems show ?thesis by (subst (asm) rx_segments.simps) simp
  next
    case False
    let ?r = "mt7601u_rx_next_seg_len c mem data n"
    from less.prems False
    have "rx_segments c env mem (data + uint ?r) (n - ucast ?r) (cnt + 1)
            (evs @ mt7601u_rx_process_seg c (env cnt) mem data (ucast ?r)) = Some (cnt', evs')"
      by (subst (asm) rx_segments.simps) simp
    with next_seg_len_decr [OF False] less.hyps [of "n - ucast ?r"]
    have "submit_buf_calls evs' =
            submit_buf_calls (evs @ mt7601u_rx_process_seg c (env cnt) mem data (ucast ?r))"
      by blast
    then show ?thesis by (simp add: submit_buf_calls_append process_seg_no_submit)
  qed
qed

lemma rx_process_entry_effect:
  assumes "mt7601u_rx_process_entry c env dev i = Some dev'"
  shows "rx_q dev' = rx_q dev \<and>
         (\<exists>evs. log dev' = log dev @ evs \<and> submit_buf_calls evs = [])"
proof (cases "initialized dev")
  case False
  with assms show ?thesis by (simp add: mt7601u_rx_process_entry_def)
next
  case True
  with assms obtain cnt evs where
    r: "rx_segments c env (buf (rx_e (rx_q dev) ! i)) 0
          (actual_length (rx_urb (rx_e (rx_q dev) ! i))) 0 [] = Some (cnt, evs)"
    and d: "dev' = emit (evs @ (if cnt > 1 then [Trace_mt_rx_dma_aggr cnt] else [])) dev"
    by (auto simp: mt7601u_rx_process_entry_def split: option.splits)
  from rx_segments_no_submit [OF r] have "submit_buf_calls evs = []" by simp
  then show ?thesis by (simp add: d emit_def submit_buf_calls_append)
qed

lemma rx_tasklet_runs:
  "unat (rx_pending (rx_q dev)) = k \<Longrightarrow>
   \<exists>dev' evs. mt7601u_rx_tasklet c env dev = Some dev' \<and>
     rx_pending (rx_q dev') = 0 \<and>
     log dev' = log dev @ evs \<and>
     submit_buf_calls evs =
       filter (\<lambda>i. urb_status (rx_urb (rx_e (rx_q dev) ! i)) = 0)
         (pending_indices k (rx_start (rx_q dev)) (rx_entries (rx_q dev)))"
proof (induction k arbitrary: dev)
  case 0
  then have "rx_pending (rx_q dev) = 0" by (simp add: unat_eq_0)
  then show ?case
    by (subst mt7601u_rx_tasklet.simps) (simp add: mt7601u_rx_get_pending_entry_def)
next
  case (Suc k)
  let ?q = "rx_q dev"
  let ?i = "unat (rx_start ?q)"
  let ?dev1 = "snd (mt7601u_rx_get_pending_entry dev)"
  from Suc.prems have nz: "rx_pending ?q \<noteq> 0" by auto
  have pop: "fst (mt7601u_rx_get_pending_entry dev) = Some ?i"
      "rx_q ?dev1 = ?q\<lparr>rx_pending := rx_pending ?q - 1,
                         rx_start := (rx_start ?q + 1) mod rx_entries ?q\<rparr>"
      "log ?dev1 = log dev"
    using nz by (simp_all add: mt7601u_rx_get_pending_entry_def Let_def)
  have k1: "unat (rx_pending (rx_q ?dev1)) = k"
    using Suc.prems nz by (simp add: pop unat_minus_one)
  show ?case
  proof (cases "urb_status (rx_urb (rx_e ?q ! ?i)) = 0")
    case False
    from Suc.IH [OF k1, of] obtain dev' evs where
      "mt7601u_rx_tasklet c env ?dev1 = Some dev'" "rx_pending (rx_q dev') = 0"
      "log dev' = log ?dev1 @ evs"
      "submit_buf_calls evs =
         filter (\<lambda>i. urb_status (rx_urb (rx_e (rx_q ?dev1) ! i)) = 0)
           (pending_indices k (rx_start (rx_q ?dev1)) (rx_entries (rx_q ?dev1)))"
      by blast
    with False show ?thesis
      by (subst mt7601u_rx_tasklet.simps) (simp add: pop)
  next
    case True
    obtain dev2 where p: "mt7601u_rx_process_entry c (env ?i) ?dev1 ?i = Some dev2"
      using rx_process_entry_total by blast
    from rx_process_entry_effect [OF p] obtain evs2 where
      e2: "rx_q dev2 = rx_q ?dev1" "log dev2 = log ?dev1 @ evs2" "submit_buf_calls evs2 = []"
      by blast
    let ?dev3 = "mt7601u_usb_submit_buf dev2 ?i"
    have e3: "rx_q ?dev3 = rx_q ?dev1" "log ?dev3 = log dev @ evs2 @ [Usb_submit_buf ?i]"
      by (simp_all add: mt7601u_usb_submit_buf_def Let_def emit_def e2 pop)
    have k3: "unat (rx_pending (rx_q ?dev3)) = k" using k1 by (simp add: e3)
    from Suc.IH [OF k3] obtain dev' evs where
      "mt7601u_rx_tasklet c env ?dev3 = Some dev'" "rx_pending (rx_q dev') = 0"
      "log dev' = log ?dev3 @ evs"
      "submit_buf_calls evs =
         filter (\<lambda>i. urb_status (rx_urb (rx_e (rx_q ?dev3) ! i)) = 0)
           (pending_indices k (rx_start (rx_q ?dev3)) (rx_entries (rx_q ?dev3)))"
      by blast
    with True show ?thesis
      by (subst mt7601u_rx_tasklet.simps)
         (simp add: pop p e3 e2 submit_buf_calls_append)
  qed
qed

lemma failed_dev_pop:
  "fst (mt7601u_rx_get_pending_entry failed_dev) = Some 0"
  by code_simp

lemma failed_dev_ok: "rx_ring_ok (rx_q failed_dev)"
  by code_simp

lemma failed_dev_status:
  "urb_status (rx_urb (rx_e (rx_q failed_dev) ! 0)) = - 71"
  by code_simp

lemma failed_dev_pop2:
  "fst (mt7601u_rx_get_pending_entry (snd (mt7601u_rx_get_pending_entry failed_dev))) = None"
  by code_simp

lemma failed_dev_final:
  "(\<lambda>d. (submit_buf_calls (log d), rx_inflight d, unat (rx_pending (rx_q d))))
     (snd (mt7601u_rx_get_pending_entry (snd (mt7601u_rx_get_pending_entry failed_dev)))) =
   ([], [1], 0)"
  by code_simp

text \<open>
  Claim C1, as the code has it. When the entry the processor pops has a failure status,
  the processor goes straight on to the next pending entry: the buffer is neither
  reassembled nor resubmitted. When the status is 0 the entry is processed and then
  resubmitted. A run of the processor returns with nothing pending, and the buffers it
  resubmitted are exactly the pending entries with status 0, in ring order.
\<close>

theorem rx_tasklet_resubmits_good_entries:
  assumes pop: "fst (mt7601u_rx_get_pending_entry dev) = Some i"
      and "rx_ring_ok (rx_q dev)"
  shows
    "(urb_status (rx_urb (rx_e (rx_q dev) ! i)) \<noteq> 0 \<longrightarrow>
        mt7601u_rx_tasklet c env dev =
          mt7601u_rx_tasklet c env (snd (mt7601u_rx_get_pending_entry dev))) \<and>
     (urb_status (rx_urb (rx_e (rx_q dev) ! i)) = 0 \<longrightarrow>
        (\<exists>dev2. mt7601u_rx_process_entry c (env i) (snd (mt7601u_rx_get_pending_entry dev)) i =
                  Some dev2 \<and>
                mt7601u_rx_tasklet c env dev =
                  mt7601u_rx_tasklet c env (mt7601u_usb_submit_buf dev2 i))) \<and>
     (\<exists>dev'. mt7601u_rx_tasklet c env dev = Some dev' \<and>
        rx_pending (rx_q dev') = 0 \<and>
        submit_buf_calls (drop (length (log dev)) (log dev')) =
          filter (\<lambda>j. urb_status (rx_urb (rx_e (rx_q dev) ! j)) = 0)
            (pending_indices (unat (rx_pending (rx_q dev))) (rx_start (rx_q dev))
               (rx_entries (rx_q dev))))"
proof (intro conjI impI)
  assume "urb_status (rx_urb (rx_e (rx_q dev) ! i)) \<noteq> 0"
  with pop show "mt7601u_rx_tasklet c env dev =
      mt7601u_rx_tasklet c env (snd (mt7601u_rx_get_pending_entry dev))"
    by (subst mt7601u_rx_tasklet.simps) simp
next
  assume ok: "urb_status (rx_urb (rx_e (rx_q dev) ! i)) = 0"
  obtain dev2 where
    p: "mt7601u_rx_process_entry c (env i) (snd (mt7601u_rx_get_pending_entry dev)) i = Some dev2"
    using rx_process_entry_total by blast
  from pop ok p have "mt7601u_rx_tasklet c env dev =
      mt7601u_rx_tasklet c env (mt7601u_usb_submit_buf dev2 i)"
    by (subst mt7601u_rx_tasklet.simps) simp
  with p show "\<exists>dev2. mt7601u_rx_process_entry c (env i)
        (snd (mt7601u_rx_get_pending_entry dev)) i = Some dev2 \<and>
      mt7601u_rx_tasklet c env dev = mt7601u_rx_tasklet c env (mt7601u_usb_submit_buf dev2 i)"
    by blast
next
  from rx_tasklet_runs [OF refl, where dev = dev and c = c and env = env] obtain dev' evs where
    r: "mt7601u_rx_tasklet c env dev = Some dev'" "rx_pending (rx_q dev') = 0"
      "log dev' = log dev @ evs"
      "submit_buf_calls evs =
        filter (\<lambda>j. urb_status (rx_urb (rx_e (rx_q dev) ! j)) = 0)
          (pending_indices (unat (rx_pending (rx_q dev))) (rx_start (rx_q dev))
             (rx_entries (rx_q dev)))"
    by blast
  then show "\<exists>dev'. mt7601u_rx_tasklet c env dev = Some dev' \<and>
        rx_pending (rx_q dev') = 0 \<and>
        submit_buf_calls (drop (length (log dev)) (log dev')) =
          filter (\<lambda>j. urb_status (rx_urb (rx_e (rx_q dev) ! j)) = 0)
            (pending_indices (unat (rx_pending (rx_q dev))) (rx_start (rx_q dev))
               (rx_entries (rx_q dev)))"
    by simp
qed

theorem rx_tasklet_resubmits_good_entries_witness:
  "fst (mt7601u_rx_get_pending_entry failed_dev) = Some 0 \<and>
   rx_ring_ok (rx_q failed_dev) \<and>
   urb_status (rx_urb (rx_e (rx_q failed_dev) ! 0)) = - 71 \<and>
   mt7601u_rx_tasklet sample_consts (\<lambda>i k. (True, False)) failed_dev =
     mt7601u_rx_tasklet sample_consts (\<lambda>i k. (True, False))
       (snd (mt7601u_rx_get_pending_entry failed_dev))"
  using rx_tasklet_resubmits_good_entries [OF failed_dev_pop failed_dev_ok,
      of sample_consts "\<lambda>i k. (True, False)"]
  by (simp add: failed_dev_pop failed_dev_status failed_dev_ok)

text \<open>
  The only pending entry has status \<open>-71\<close>: the run makes no submission and the urb is
  not in flight afterwards.
\<close>

theorem rx_tasklet_failed_entry_counterexample:
  "fst (mt7601u_rx_get_pending_entry failed_dev) = Some 0 \<and>
   urb_status (rx_urb (rx_e (rx_q failed_dev) ! 0)) = - 71 \<and>
   map_option (\<lambda>d. (submit_buf_calls (log d), rx_inflight d, unat (rx_pending (rx_q d))))
     (mt7601u_rx_tasklet sample_consts (\<lambda>i k. (True, False)) failed_dev) = Some ([], [1], 0)"
proof -
  have "mt7601u_rx_tasklet sample_consts (\<lambda>i k. (True, False)) failed_dev =
      mt7601u_rx_tasklet sample_consts (\<lambda>i k. (True, False))
        (snd (mt7601u_rx_get_pending_entry failed_dev))"
    by (subst mt7601u_rx_tasklet.simps) (simp add: failed_dev_pop failed_dev_status)
  also have "\<dots> =
      Some (snd (mt7601u_rx_get_pending_entry (snd (mt7601u_rx_get_pending_entry failed_dev))))"
    by (subst mt7601u_rx_tasklet.simps) (simp add: failed_dev_pop2)
  finally show ?thesis
    using failed_dev_final by (simp add: failed_dev_pop failed_dev_status)
qed

lemma word_mod_lt: "(n :: u32) \<noteq> 0 \<Longrightarrow> x mod n < n"
  by (simp add: word_mod_less_divisor word_neq_0_conv)

lemma rx_ring_ok_nonzero: "rx_ring_ok q \<Longrightarrow> rx_entries q \<noteq> 0"
  by (auto simp: rx_ring_ok_def)

lemma rx_step_ok:
  assumes "rx_ring_ok (rx_q (sys_dev s))"
  shows "rx_ring_ok (rx_q (sys_dev (rx_step c s a)))"
proof (cases a)
  case (Complete st len)
  show ?thesis
  proof (cases "rx_inflight (sys_dev s)")
    case Nil
    with Complete assms show ?thesis by (simp add: rx_step_def)
  next
    case (Cons u rest)
    let ?u = "\<lparr>urb_id = u, urb_status = st, actual_length = len\<rparr>"
    let ?d = "write_rx_urb ?u ((sys_dev s)\<lparr>rx_inflight := remove1 u (rx_inflight (sys_dev s))\<rparr>)"
    have d: "rx_ring_ok (rx_q ?d)" using assms by (simp add: rx_ring_ok_def write_rx_urb_def)
    have "rx_ring_ok (rx_q (mt7601u_complete_rx c ?u ?d))"
      using complete_rx_rx_q [of c ?u ?d] d word_mod_lt [OF rx_ring_ok_nonzero [OF d]]
      by (auto simp: rx_ring_ok_def)
    with Complete Cons show ?thesis by (simp add: rx_step_def usb_complete_rx_def)
  qed
next
  case Pop
  with assms word_mod_lt [OF rx_ring_ok_nonzero [OF assms]] show ?thesis
    by (simp add: rx_step_def mt7601u_rx_get_pending_entry_def Let_def rx_ring_ok_def)
next
  case Resubmit
  with assms show ?thesis
    by (cases "held s") (simp_all add: rx_step_def mt7601u_usb_submit_buf_def Let_def emit_def)
qed

lemma rx_run_ok:
  "rx_ring_ok (rx_q (sys_dev s)) \<Longrightarrow> rx_ring_ok (rx_q (sys_dev (rx_run c s acts)))"
proof (induction acts arbitrary: s)
  case Nil
  then show ?case by (simp add: rx_run_def)
next
  case (Cons a acts)
  from Cons.IH [OF rx_step_ok [OF Cons.prems, of c a]] show ?case by (simp add: rx_run_def)
qed

lemma rx_init_ok: "0 < n \<Longrightarrow> n < 2 ^ 32 \<Longrightarrow> rx_ring_ok (rx_ring n)"
  by (simp add: rx_ring_ok_def rx_ring_def unat_of_nat word_less_nat_alt)

text \<open>
  Claim C6. From the state with all \<open>n\<close> buffers submitted, every interleaving of
  completions, pops and resubmissions keeps the ring well-formed and \<open>pending \<le> n\<close>
  (it is unsigned, so \<open>0 \<le> pending\<close>). On a well-formed ring, a step that moves \<open>end\<close>
  is a completion and increments \<open>pending\<close>; a step that moves \<open>start\<close> is the
  processor's pop and decrements \<open>pending\<close>; the pop returns \<open>NULL\<close> and changes nothing
  when \<open>pending\<close> is 0. After exactly \<open>n\<close> completions and no processing,
  \<open>pending = n\<close>.
\<close>

theorem rx_ring_invariant:
  assumes "0 < n" and "n < 2 ^ 32"
  shows
    "rx_ring_ok (rx_q (sys_dev (rx_run c (rx_init n) acts))) \<and>
     unat (rx_pending (rx_q (sys_dev (rx_run c (rx_init n) acts)))) \<le> n \<and>
     (rx_ring_ok (rx_q (sys_dev s)) \<and>
      rx_end (rx_q (sys_dev (rx_step c s a))) \<noteq> rx_end (rx_q (sys_dev s)) \<longrightarrow>
        is_complete a \<and>
        rx_pending (rx_q (sys_dev (rx_step c s a))) = rx_pending (rx_q (sys_dev s)) + 1) \<and>
     (rx_ring_ok (rx_q (sys_dev s)) \<and>
      rx_start (rx_q (sys_dev (rx_step c s a))) \<noteq> rx_start (rx_q (sys_dev s)) \<longrightarrow>
        a = Pop \<and>
        rx_pending (rx_q (sys_dev (rx_step c s a))) = rx_pending (rx_q (sys_dev s)) - 1) \<and>
     (rx_pending (rx_q dev) = 0 \<longrightarrow> mt7601u_rx_get_pending_entry dev = (None, dev)) \<and>
     (rx_ring_ok (rx_q dev) \<and> rx_pending (rx_q dev) \<noteq> 0 \<longrightarrow>
        fst (mt7601u_rx_get_pending_entry dev) = Some (unat (rx_start (rx_q dev))) \<and>
        rx_start (rx_q (snd (mt7601u_rx_get_pending_entry dev))) =
          (rx_start (rx_q dev) + 1) mod rx_entries (rx_q dev) \<and>
        rx_pending (rx_q (snd (mt7601u_rx_get_pending_entry dev))) = rx_pending (rx_q dev) - 1) \<and>
     (length acts = n \<and> (\<forall>a\<in>set acts. is_complete a) \<longrightarrow>
        unat (rx_pending (rx_q (sys_dev (rx_run c (rx_init n) acts)))) = n)"
proof -
  have "rx_ring_ok (rx_q (sys_dev (rx_init n)))"
    using rx_init_ok [OF assms] by (simp add: rx_init_def)
  then have "rx_ring_ok (rx_q (sys_dev (rx_run c (rx_init n) acts)))" by (rule rx_run_ok)
  then show ?thesis
    using rx_pending_bounded [of c n acts] rx_step_frame [of c s a] get_pending_frame [of dev]
      rx_all_completed [OF assms(2), of acts c]
    by blast
qed

theorem rx_ring_invariant_witness:
  "(0 :: nat) < 2 \<and> (2 :: nat) < 2 ^ 32 \<and>
   length [Complete 0 44, Complete 0 44] = 2 \<and>
   unat (rx_pending (rx_q (sys_dev (rx_run sample_consts (rx_init 2)
      [Complete 0 44, Complete 0 44])))) = 2 \<and>
   unat (rx_pending (rx_q (sys_dev (rx_run sample_consts (rx_init 2)
      [Complete 0 44, Pop, Resubmit, Complete 0 44, Complete 0 44, Complete 0 44])))) \<le> 2"
proof -
  have p: "(0 :: nat) < 2" by simp
  have n: "(2 :: nat) < 2 ^ 32" by simp
  show ?thesis
    using rx_ring_invariant [OF p n, of sample_consts "[Complete 0 44, Complete 0 44]"]
      rx_ring_invariant [OF p n, of sample_consts
        "[Complete 0 44, Pop, Resubmit, Complete 0 44, Complete 0 44, Complete 0 44]"]
    by simp
qed

subsection \<open>Teardown\<close>

text \<open>
  When all \<open>n\<close> transfers are in flight, each pass of \<open>mt7601u_kill_rx\<close> cancels the
  transfer at \<open>end\<close>, its completion handler advances \<open>end\<close>, and the \<open>n\<close> passes poison
  every entry once, in ring order.
\<close>

lemma poison_calls_append: "poison_calls (xs @ ys) = poison_calls xs @ poison_calls ys"
  by (induction xs rule: poison_calls.induct) simp_all

lemma complete_rx_poison_calls:
  "poison_calls (log (mt7601u_complete_rx c u dev)) = poison_calls (log dev)"
  by (simp add: mt7601u_complete_rx_def Let_def emit_def poison_calls_append)

lemma kill_rx_body_filled:
  assumes f: "filled n k \<lparr>sys_dev = dev, held = h\<rparr>" and k: "k < n" and n: "n < 2 ^ 32"
  shows "filled n (Suc k) \<lparr>sys_dev = kill_rx_body c dev, held = h\<rparr> \<and>
         poison_calls (log (kill_rx_body c dev)) = poison_calls (log dev) @ [k]"
proof -
  let ?dev1 = "emit [Usb_poison_urb k] (dev\<lparr>poisoned := k # poisoned dev\<rparr>)"
  let ?s1 = "\<lparr>sys_dev = ?dev1, held = h\<rparr>"
  from f k have infl: "rx_inflight dev = k # [Suc k..<n]"
    by (simp add: filled_def upt_conv_Cons)
  from f k have e: "unat (rx_end (rx_q dev)) = k" by (simp add: filled_def)
  from f have ids: "map (\<lambda>b. urb_id (rx_urb b)) (rx_e (rx_q dev)) = [0..<n]"
    by (simp add: filled_def)
  have "length (rx_e (rx_q dev)) = n" using arg_cong [OF ids, of length] by simp
  then have id: "urb_id (rx_urb (rx_e (rx_q dev) ! k)) = k"
    using k nth_map [of k "rx_e (rx_q dev)" "\<lambda>b. urb_id (rx_urb b)"] ids by simp
  have body: "kill_rx_body c dev = usb_complete_rx c k (- ENOENT) 0 ?dev1"
    by (simp add: kill_rx_body_def usb_poison_urb_def Let_def e id emit_def infl)
  have f1: "filled n k ?s1" using f by (simp add: filled_def emit_def)
  have step: "rx_step c ?s1 (Complete (- ENOENT) 0) =
      \<lparr>sys_dev = usb_complete_rx c k (- ENOENT) 0 ?dev1, held = h\<rparr>"
    by (simp add: rx_step_def emit_def infl)
  from filled_step [OF f1 k n, of c "- ENOENT" 0]
  have "filled n (Suc k) \<lparr>sys_dev = kill_rx_body c dev, held = h\<rparr>"
    by (simp only: step body)
  moreover have "poison_calls (log (kill_rx_body c dev)) = poison_calls (log dev) @ [k]"
    by (simp add: body usb_complete_rx_def complete_rx_poison_calls write_rx_urb_def emit_def
        poison_calls_append)
  ultimately show ?thesis by simp
qed

lemma kill_rx_passes:
  assumes "filled n k \<lparr>sys_dev = dev, held = h\<rparr>" and "k + j \<le> n" and "n < 2 ^ 32"
  shows "filled n (k + j) \<lparr>sys_dev = (kill_rx_body c ^^ j) dev, held = h\<rparr> \<and>
         poison_calls (log ((kill_rx_body c ^^ j) dev)) = poison_calls (log dev) @ [k..<k + j]"
  using assms(2)
proof (induction j)
  case 0
  with assms(1) show ?case by simp
next
  case (Suc j)
  then have ih: "filled n (k + j) \<lparr>sys_dev = (kill_rx_body c ^^ j) dev, held = h\<rparr>"
      "poison_calls (log ((kill_rx_body c ^^ j) dev)) = poison_calls (log dev) @ [k..<k + j]"
    by simp_all
  from Suc.prems have lt: "k + j < n" by simp
  from kill_rx_body_filled [OF ih(1) lt assms(3), of c] ih(2)
  show ?case by simp
qed

lemma kill_rx_all_in_flight:
  assumes "n < 2 ^ 32"
  shows "poison_calls (log (mt7601u_kill_rx c (sys_dev (rx_init n)))) = [0..<n]"
proof -
  have f: "filled n 0 \<lparr>sys_dev = sys_dev (rx_init n), held = None\<rparr>"
    using filled_init [OF assms] by (simp add: rx_init_def)
  have e: "unat (rx_entries (rx_q (sys_dev (rx_init n)))) = n"
    using assms by (simp add: rx_init_def rx_ring_def unat_of_nat)
  have l: "log (sys_dev (rx_init n)) = []" by (simp add: rx_init_def)
  from kill_rx_passes [OF f _ assms, of n c] show ?thesis
    by (simp add: mt7601u_kill_rx_def e l)
qed

text \<open>
  Claim C7 at two states of a ring of two buffers. \<open>mt7601u_kill_rx\<close> poisons the entry at
  \<open>rx_q.end\<close> in each of its passes, and \<open>end\<close> moves only when the poisoned urb was in
  flight. With both buffers completed and not yet processed it poisons urb 0 twice and
  never urb 1. With urb 0 idle after a failed transfer and urb 1 resubmitted, cleanup
  again poisons urb 0 twice, then frees both buffers while urb 1 is still in flight.
\<close>

theorem kill_rx_misses_entries:
  "poisoned (mt7601u_kill_rx sample_consts (teardown_dev [Complete 0 0, Complete 0 0])) = [0, 0] \<and>
   rx_inflight (teardown_dev [Complete (- 71) 0, Pop, Complete 0 0, Pop, Resubmit]) = [1] \<and>
   unat (rx_end (rx_q (teardown_dev [Complete (- 71) 0, Pop, Complete 0 0, Pop, Resubmit]))) = 0 \<and>
   filter (\<lambda>u. u < 2) (poison_calls (log (mt7601u_dma_cleanup sample_consts
      (teardown_dev [Complete (- 71) 0, Pop, Complete 0 0, Pop, Resubmit])))) = [0, 0] \<and>
   free_buf_calls (log (mt7601u_dma_cleanup sample_consts
      (teardown_dev [Complete (- 71) 0, Pop, Complete 0 0, Pop, Resubmit]))) = [0, 1] \<and>
   rx_inflight (mt7601u_dma_cleanup sample_consts
      (teardown_dev [Complete (- 71) 0, Pop, Complete 0 0, Pop, Resubmit])) = [1]"
  by code_simp

end
